theory Spec2Isabelle
  imports Main "HOL-Library.Sublist"
begin

section \<open>The artifact cache of mono (internal/mono/cache.go)\<close>

text \<open>
  A shallow embedding of the cache manager: fingerprinting of artifacts
  (\<open>ComputeCacheKey\<close>), the environment contribution (\<open>EnvVars\<close>), the tree
  replicators and the store, sync and seed operations over an explicit file system.

  Go strings and byte slices are \<open>string\<close> (a list of 8-bit characters). Calls into the
  operating system and the Go library are the parameters of the model: the digest
  function, the result of reading a file and the result of running a shell command.
\<close>

subsection \<open>Hex encoding and the digest prefix\<close>

definition hextable :: string where
  "hextable = ''0123456789abcdef''"

text \<open>\<open>hex.EncodeToString\<close>: two characters per byte, high nibble first.\<close>

definition EncodeToString :: "string \<Rightarrow> string" where
  "EncodeToString bs =
     concat (map (\<lambda>b. [hextable ! (of_char b div 16), hextable ! (of_char b mod 16)]) bs)"

subsection \<open>Cache manager, artifact and build configuration\<close>

record CacheManager =
  HomeDir :: string
  LocalCacheDir :: string
  SccacheAvailable :: bool

text \<open>
  Modelled from the spec: the types \<open>ArtifactConfig\<close> and \<open>BuildConfig\<close> are declared
  outside cache.go. The artifact descriptor is
  \<open>{name, key_files, key_commands, paths}\<close>; the build configuration has
  \<open>build.strategy\<close> (one of layered, compile, download, none), \<open>build.download_cache\<close>
  and the optional boolean \<open>build.sccache\<close> (a nil pointer is \<open>None\<close>).
\<close>

record ArtifactConfig =
  Name :: string
  KeyFiles :: "string list"
  KeyCommands :: "string list"
  Paths :: "string list"

record BuildConfig =
  Strategy :: string
  DownloadCache :: bool
  Sccache :: "bool option"

subsection \<open>ComputeCacheKey\<close>

text \<open>
  What \<open>os.Open\<close> followed by \<open>io.Copy\<close> gives for one key file: the file does not
  exist, opening fails for another reason, reading fails, or the bytes of the file.
  The strings are the operating system's error texts.
\<close>

datatype file_read = NotExist | OpenFailed string | ReadFailed string | Contents string

text \<open>\<open>exec.Command("bash", "-c", cmd).Output()\<close>: an error (the command could not be
  started or exited non-zero) or the captured standard output.\<close>

datatype cmd_result = CmdFailed string | CmdOutput string

datatype key_error =
    KeyFileReadFailed string string
  | KeyFileHashFailed string string
  | KeyCommandFailed string string

text \<open>
  The environment of the fingerprint: \<open>sha256\<close> is the digest of crypto/sha256,
  \<open>read_file\<close> reads a file by its full path, and \<open>run_in\<close> runs a shell command in
  a given working directory. The process's own working directory is \<open>proc_cwd\<close>.
\<close>

record key_env =
  sha256 :: "string \<Rightarrow> string"
  read_file :: "string \<Rightarrow> file_read"
  run_in :: "string \<Rightarrow> string \<Rightarrow> cmd_result"
  proc_cwd :: string

text \<open>\<open>filepath.Join\<close> of a directory and a relative name.\<close>

definition Join :: "string \<Rightarrow> string \<Rightarrow> string" where
  "Join dir name = dir @ ''/'' @ name"

text \<open>The first loop: the accumulator \<open>h\<close> holds the bytes written to the hash so far.\<close>

fun hash_key_files :: "key_env \<Rightarrow> string \<Rightarrow> string list \<Rightarrow> string \<Rightarrow> key_error + string" where
  "hash_key_files E envPath [] h = Inr h"
| "hash_key_files E envPath (keyFile # rest) h =
     (case read_file E (Join envPath keyFile) of
        NotExist \<Rightarrow> hash_key_files E envPath rest h
      | OpenFailed e \<Rightarrow> Inl (KeyFileReadFailed keyFile e)
      | ReadFailed e \<Rightarrow> Inl (KeyFileHashFailed keyFile e)
      | Contents bs \<Rightarrow> hash_key_files E envPath rest (h @ bs))"

text \<open>The second loop: the command is started without a working directory of its own,
  so it runs in the working directory of the calling process.\<close>

fun hash_key_commands :: "key_env \<Rightarrow> string list \<Rightarrow> string \<Rightarrow> key_error + string" where
  "hash_key_commands E [] h = Inr h"
| "hash_key_commands E (cmd # rest) h =
     (case run_in E (proc_cwd E) cmd of
        CmdFailed e \<Rightarrow> Inl (KeyCommandFailed cmd e)
      | CmdOutput out \<Rightarrow> hash_key_commands E rest (h @ out))"

definition ComputeCacheKey :: "key_env \<Rightarrow> ArtifactConfig \<Rightarrow> string \<Rightarrow> key_error + string" where
  "ComputeCacheKey E artifact envPath =
     (case hash_key_files E envPath (KeyFiles artifact) [] of
        Inl e \<Rightarrow> Inl e
      | Inr h \<Rightarrow>
          (case hash_key_commands E (KeyCommands artifact) h of
             Inl e \<Rightarrow> Inl e
           | Inr h' \<Rightarrow> Inr (take 16 (EncodeToString (sha256 E h')))))"

text \<open>The bytes a key file contributes, and the bytes a key command contributes.\<close>

definition file_bytes :: "key_env \<Rightarrow> string \<Rightarrow> string \<Rightarrow> string" where
  "file_bytes E envPath keyFile =
     (case read_file E (Join envPath keyFile) of Contents bs \<Rightarrow> bs | _ \<Rightarrow> [])"

definition cmd_bytes :: "key_env \<Rightarrow> string \<Rightarrow> string" where
  "cmd_bytes E cmd = (case run_in E (proc_cwd E) cmd of CmdOutput out \<Rightarrow> out | _ \<Rightarrow> [])"

definition key_file_ok :: "key_env \<Rightarrow> string \<Rightarrow> string \<Rightarrow> bool" where
  "key_file_ok E envPath keyFile =
     (case read_file E (Join envPath keyFile) of
        NotExist \<Rightarrow> True | Contents bs \<Rightarrow> True | _ \<Rightarrow> False)"

definition key_file_absent :: "key_env \<Rightarrow> string \<Rightarrow> string \<Rightarrow> bool" where
  "key_file_absent E envPath keyFile = (read_file E (Join envPath keyFile) = NotExist)"

definition key_file_unreadable :: "key_env \<Rightarrow> string \<Rightarrow> string \<Rightarrow> bool" where
  "key_file_unreadable E envPath keyFile =
     (case read_file E (Join envPath keyFile) of Contents bs \<Rightarrow> False | _ \<Rightarrow> True)"

definition cmd_ok :: "key_env \<Rightarrow> string \<Rightarrow> bool" where
  "cmd_ok E cmd = (case run_in E (proc_cwd E) cmd of CmdOutput out \<Rightarrow> True | _ \<Rightarrow> False)"

definition is_lower_hex :: "char \<Rightarrow> bool" where
  "is_lower_hex c = (c \<in> set hextable)"

subsection \<open>EnvVars\<close>

definition shouldEnableSccache :: "CacheManager \<Rightarrow> BuildConfig \<Rightarrow> bool" where
  "shouldEnableSccache cm cfg =
     (case Sccache cfg of
        Some b \<Rightarrow> b \<and> SccacheAvailable cm
      | None \<Rightarrow> SccacheAvailable cm)"

definition EnvVars :: "CacheManager \<Rightarrow> BuildConfig \<Rightarrow> string list" where
  "EnvVars cm cfg = (if shouldEnableSccache cm cfg then [''RUSTC_WRAPPER=sccache''] else [])"

subsection \<open>Example inputs for the fingerprint and the environment contribution\<close>

text \<open>A stand-in digest of the right length (32 bytes): the input padded with zero bytes
  and cut. It is used only to run the model on concrete inputs.\<close>

definition pad_digest :: "string \<Rightarrow> string" where
  "pad_digest bs = take 32 (bs @ replicate 32 (CHR 0x00))"

text \<open>A workspace whose manifest exists but may not be read.\<close>

definition env_denied :: key_env where
  "env_denied = \<lparr> sha256 = pad_digest,
       read_file = (\<lambda>f. if f = ''/w/Cargo.lock'' then OpenFailed ''permission denied'' else NotExist),
       run_in = (\<lambda>cwd cmd. CmdFailed ''exit status 127''),
       proc_cwd = ''/home'' \<rparr>"

definition art_lock_only :: ArtifactConfig where
  "art_lock_only = \<lparr> Name = ''cargo'', KeyFiles = [''Cargo.lock''], KeyCommands = [],
       Paths = [''target''] \<rparr>"

text \<open>A root and a workspace with the same manifest; the shell command prints the
  directory it runs in and fails for an unknown command.\<close>

definition env_two :: key_env where
  "env_two = \<lparr> sha256 = pad_digest,
       read_file = (\<lambda>f. if f = ''/root/Cargo.lock'' \<or> f = ''/ws/Cargo.lock''
                         then Contents ''L1'' else NotExist),
       run_in = (\<lambda>cwd cmd. if cmd = ''pwd'' then CmdOutput cwd else CmdFailed ''exit status 127''),
       proc_cwd = ''/home'' \<rparr>"

definition art_cargo :: ArtifactConfig where
  "art_cargo = \<lparr> Name = ''cargo'', KeyFiles = [''Cargo.lock'', ''rust-toolchain''],
       KeyCommands = [''pwd''], Paths = [''target''] \<rparr>"

definition art_bad_cmd :: ArtifactConfig where
  "art_bad_cmd = \<lparr> Name = ''cargo'', KeyFiles = [''Cargo.lock''],
       KeyCommands = [''rustc --version''], Paths = [''target''] \<rparr>"

definition art_absent :: ArtifactConfig where
  "art_absent = \<lparr> Name = ''npm'', KeyFiles = [''package-lock.json''], KeyCommands = [],
       Paths = [''node_modules''] \<rparr>"

definition cm_no_sccache :: CacheManager where
  "cm_no_sccache = \<lparr> HomeDir = ''/home/u/.mono'', LocalCacheDir = ''/home/u/.mono/cache_local'',
       SccacheAvailable = False \<rparr>"

definition cm_sccache :: CacheManager where
  "cm_sccache = \<lparr> HomeDir = ''/home/u/.mono'', LocalCacheDir = ''/home/u/.mono/cache_local'',
       SccacheAvailable = True \<rparr>"

definition cfg_layered :: BuildConfig where
  "cfg_layered = \<lparr> Strategy = ''layered'', DownloadCache = True, Sccache = None \<rparr>"

definition cfg_none :: BuildConfig where
  "cfg_none = \<lparr> Strategy = ''none'', DownloadCache = True, Sccache = None \<rparr>"

section \<open>The file system\<close>

text \<open>
  Paths are lists of components from the root of the file system;
  \<open>filepath.Join\<close> of two such paths is their concatenation, \<open>filepath.Base\<close> the
  last component and \<open>filepath.Dir\<close> the path without it. A regular file is an inode
  number (two hard links to one file carry the same number); the bytes of an inode are
  kept in a table beside the tree. A directory lists its entries by name; permission
  bits and timestamps are left out. Symbolic links are stored with their target string
  and are never followed.
\<close>

type_synonym path = "string list"

datatype node = File nat | Symlink string | Dir "(string \<times> node) list"

datatype errno = EEXIST | ENOENT | ENOTDIR | EISDIR | ENOTEMPTY | EXDEV | ENOTSUP
  | EPERM | EMLINK | EINVAL | ELOOP | ETIMEDOUT

text \<open>Why linking a file may fail although the tree would allow it.\<close>

datatype link_failure = NotPermitted | TooManyLinks | NotSupported | TimedOut

fun errno_of :: "link_failure \<Rightarrow> errno" where
  "errno_of NotPermitted = EPERM"
| "errno_of TooManyLinks = EMLINK"
| "errno_of NotSupported = ENOTSUP"
| "errno_of TimedOut = ETIMEDOUT"

fun is_Dir :: "node \<Rightarrow> bool" where
  "is_Dir (Dir es) = True"
| "is_Dir n = False"

text \<open>Replace the entry of a directory listing, or append it.\<close>

fun upd :: "string \<Rightarrow> node \<Rightarrow> (string \<times> node) list \<Rightarrow> (string \<times> node) list" where
  "upd n v [] = [(n, v)]"
| "upd n v ((m, c) # es) = (if m = n then (n, v) # es else (m, c) # upd n v es)"

definition rm :: "string \<Rightarrow> (string \<times> node) list \<Rightarrow> (string \<times> node) list" where
  "rm n es = filter (\<lambda>e. fst e \<noteq> n) es"

text \<open>The node at a path, if every component on the way names an entry.\<close>

fun lookup :: "node \<Rightarrow> path \<Rightarrow> node option" where
  "lookup t [] = Some t"
| "lookup (Dir es) (n # p) = (case map_of es n of None \<Rightarrow> None | Some c \<Rightarrow> lookup c p)"
| "lookup t (n # p) = None"

text \<open>The same walk with the error of the system call: a missing component is ENOENT,
  a component below a file or a link is ENOTDIR.\<close>

fun stat :: "node \<Rightarrow> path \<Rightarrow> errno + node" where
  "stat t [] = Inr t"
| "stat (Dir es) (n # p) = (case map_of es n of None \<Rightarrow> Inl ENOENT | Some c \<Rightarrow> stat c p)"
| "stat t (n # p) = Inl ENOTDIR"

text \<open>Place a node at a path whose parent is an existing directory.\<close>

fun put :: "node \<Rightarrow> path \<Rightarrow> node \<Rightarrow> errno + node" where
  "put t [] v = Inr v"
| "put (Dir es) [n] v = Inr (Dir (upd n v es))"
| "put (Dir es) (n # p) v =
     (case map_of es n of
        None \<Rightarrow> Inl ENOENT
      | Some c \<Rightarrow> (case put c p v of Inl e \<Rightarrow> Inl e | Inr c' \<Rightarrow> Inr (Dir (upd n c' es))))"
| "put t (n # p) v = Inl ENOTDIR"

text \<open>Remove the entry at a path with everything below it; a missing path is left alone.\<close>

fun del :: "node \<Rightarrow> path \<Rightarrow> node" where
  "del t [] = t"
| "del (Dir es) [n] = Dir (rm n es)"
| "del (Dir es) (n # p) =
     (case map_of es n of None \<Rightarrow> Dir es | Some c \<Rightarrow> Dir (upd n (del c p) es))"
| "del t (n # p) = t"

text \<open>\<open>os.MkdirAll\<close>: create the directory and every missing parent; a file or a link
  on the way is an error, an existing directory is success.\<close>

fun mkdir_all :: "node \<Rightarrow> path \<Rightarrow> errno + node" where
  "mkdir_all (Dir es) [] = Inr (Dir es)"
| "mkdir_all t [] = Inl ENOTDIR"
| "mkdir_all (Dir es) (n # p) =
     (case map_of es n of
        None \<Rightarrow> (case mkdir_all (Dir []) p of
                   Inl e \<Rightarrow> Inl e | Inr c' \<Rightarrow> Inr (Dir (upd n c' es)))
      | Some c \<Rightarrow> (case mkdir_all c p of
                   Inl e \<Rightarrow> Inl e | Inr c' \<Rightarrow> Inr (Dir (upd n c' es))))"
| "mkdir_all t (n # p) = Inl ENOTDIR"

text \<open>The pre-order walk of \<open>filepath.Walk\<close> and \<open>filepath.WalkDir\<close> over a tree:
  every entry with its path relative to the root of the walk, a directory before its
  entries, the entries in the order of the listing. A directory for which \<open>skip\<close>
  holds is not entered and not reported (the callback returned \<open>SkipDir\<close>).\<close>

fun walk :: "(path \<Rightarrow> bool) \<Rightarrow> path \<Rightarrow> node \<Rightarrow> (path \<times> node) list"
  and walk_list :: "(path \<Rightarrow> bool) \<Rightarrow> path \<Rightarrow> (string \<times> node) list \<Rightarrow> (path \<times> node) list" where
  "walk skip rel (Dir es) = (if skip rel then [] else (rel, Dir es) # walk_list skip rel es)"
| "walk skip rel (File i) = [(rel, File i)]"
| "walk skip rel (Symlink t) = [(rel, Symlink t)]"
| "walk_list skip rel [] = []"
| "walk_list skip rel (e # es) = walk skip (rel @ [fst e]) (snd e) @ walk_list skip rel es"

text \<open>The state of the machine: the tree at the root of the file system, the bytes of
  each inode (the first pair of an inode number counts, a missing number is an empty
  file), the next free inode number, and the trees the file system went through, one
  after each call that changed it, the latest last.\<close>

record world =
  root :: node
  inodes :: "(nat \<times> string) list"
  next_ino :: nat
  history :: "node list"

text \<open>What the model does not compute: the device a path lives on, the failure of
  linking a given source file for a reason outside the tree (permission, limit on
  links, no support for links, time-out), whether another process holds the advisory
  lock on a lock file, the digest, and the shell.\<close>

record os_env =
  device :: "path \<Rightarrow> nat"
  link_fault :: "path \<Rightarrow> link_failure option"
  lock_held :: "path \<Rightarrow> bool"
  digest :: "string \<Rightarrow> string"
  shell :: "string \<Rightarrow> string \<Rightarrow> cmd_result"
  cwd :: string

definition commit :: "node \<Rightarrow> world \<Rightarrow> world" where
  "commit t w = (if t = root w then w else w\<lparr>root := t, history := history w @ [t]\<rparr>)"

definition content :: "world \<Rightarrow> nat \<Rightarrow> string" where
  "content w i = (case map_of (inodes w) i of None \<Rightarrow> [] | Some bs \<Rightarrow> bs)"

definition dirExists :: "world \<Rightarrow> path \<Rightarrow> bool" where
  "dirExists w p = (case lookup (root w) p of Some (Dir es) \<Rightarrow> True | _ \<Rightarrow> False)"

text \<open>Modelled from the spec: \<open>fileExists\<close> is declared outside cache.go; the
  build-in-progress marker "exists" when the path names something that is not a
  directory.\<close>

definition fileExists :: "world \<Rightarrow> path \<Rightarrow> bool" where
  "fileExists w p = (case lookup (root w) p of None \<Rightarrow> False | Some (Dir es) \<Rightarrow> False | _ \<Rightarrow> True)"

definition os_MkdirAll :: "path \<Rightarrow> world \<Rightarrow> errno + world" where
  "os_MkdirAll p w = (case mkdir_all (root w) p of Inl e \<Rightarrow> Inl e | Inr t \<Rightarrow> Inr (commit t w))"

definition os_RemoveAll :: "path \<Rightarrow> world \<Rightarrow> world" where
  "os_RemoveAll p w = commit (del (root w) p) w"

text \<open>\<open>os.Link\<close>: the new name must not exist; linking a directory is refused; the two
  names must be on one device.\<close>

definition os_Link :: "os_env \<Rightarrow> path \<Rightarrow> path \<Rightarrow> world \<Rightarrow> errno + world" where
  "os_Link X src dst w =
     (case lookup (root w) src of
        None \<Rightarrow> Inl ENOENT
      | Some (Dir es) \<Rightarrow> Inl EPERM
      | Some v \<Rightarrow>
          if lookup (root w) dst \<noteq> None then Inl EEXIST
          else (case link_fault X src of
                  Some f \<Rightarrow> Inl (errno_of f)
                | None \<Rightarrow>
                    if device X src \<noteq> device X dst then Inl EXDEV
                    else (case put (root w) dst v of
                            Inl e \<Rightarrow> Inl e | Inr t \<Rightarrow> Inr (commit t w))))"

definition os_Symlink :: "string \<Rightarrow> path \<Rightarrow> world \<Rightarrow> errno + world" where
  "os_Symlink target dst w =
     (if lookup (root w) dst \<noteq> None then Inl EEXIST
      else (case put (root w) dst (Symlink target) of
              Inl e \<Rightarrow> Inl e | Inr t \<Rightarrow> Inr (commit t w)))"

text \<open>\<open>os.Rename\<close>: both names on one device; a directory is not moved below itself;
  a directory replaces only an empty directory, a file or link only a non-directory.\<close>

definition os_Rename :: "os_env \<Rightarrow> path \<Rightarrow> path \<Rightarrow> world \<Rightarrow> errno + world" where
  "os_Rename X src dst w =
     (case lookup (root w) src of
        None \<Rightarrow> Inl ENOENT
      | Some v \<Rightarrow>
          if device X src \<noteq> device X dst then Inl EXDEV
          else if src = dst then Inr w
          else if take (length src) dst = src then Inl EINVAL
          else if take (length dst) src = dst then Inl ENOTEMPTY
          else (case lookup (root w) dst of
                  Some (Dir es) \<Rightarrow>
                    if \<not> is_Dir v then Inl EISDIR
                    else if es \<noteq> [] then Inl ENOTEMPTY
                    else (case put (del (root w) src) dst v of
                            Inl e \<Rightarrow> Inl e | Inr t \<Rightarrow> Inr (commit t w))
                | Some d \<Rightarrow>
                    if is_Dir v then Inl ENOTDIR
                    else (case put (del (root w) src) dst v of
                            Inl e \<Rightarrow> Inl e | Inr t \<Rightarrow> Inr (commit t w))
                | None \<Rightarrow>
                    (case put (del (root w) src) dst v of
                       Inl e \<Rightarrow> Inl e | Inr t \<Rightarrow> Inr (commit t w))))"

subsection \<open>Errors of the cache manager\<close>

datatype cache_error =
    OsError errno
  | KeyError key_error
  | BuildInProgress string
  | Wrap string cache_error
  | RecoveryFailed cache_error errno
  | Recovered cache_error

type_synonym 'a result = "cache_error option \<times> 'a"

section \<open>Tree replication\<close>

subsection \<open>Paths as strings\<close>

text \<open>The components of a slash-separated path string; empty components and \<open>.\<close>
  are dropped, as \<open>filepath.Clean\<close> does (\<open>..\<close> is not resolved).\<close>

fun split_slash :: "string \<Rightarrow> string \<Rightarrow> string list" where
  "split_slash cur [] = (if cur = [] then [] else [cur])"
| "split_slash cur (c # cs) =
     (if c = CHR ''/'' then (if cur = [] then split_slash [] cs else cur # split_slash [] cs)
      else split_slash (cur @ [c]) cs)"

definition components :: "string \<Rightarrow> path" where
  "components s = filter (\<lambda>c. c \<noteq> ''.'') (split_slash [] s)"

text \<open>\<open>filepath.Rel\<close> of the root of a walk and an entry of the walk.\<close>

fun rel_string :: "path \<Rightarrow> string" where
  "rel_string [] = ''.''"
| "rel_string [n] = n"
| "rel_string (n # p) = n @ ''/'' @ rel_string p"

definition Base :: "path \<Rightarrow> path" where
  "Base p = (if p = [] then [] else [last p])"

subsection \<open>Skip rules\<close>

definition HasSuffix :: "string \<Rightarrow> string \<Rightarrow> bool" where
  "HasSuffix s suf = (length suf \<le> length s \<and> drop (length s - length suf) s = suf)"

definition HasPrefix :: "string \<Rightarrow> string \<Rightarrow> bool" where
  "HasPrefix s pre = (length pre \<le> length s \<and> take (length pre) s = pre)"

fun Contains :: "string \<Rightarrow> string \<Rightarrow> bool" where
  "Contains [] substr = (substr = [])"
| "Contains (c # cs) substr = (HasPrefix (c # cs) substr \<or> Contains cs substr)"

definition shouldSkipCargoPath :: "string \<Rightarrow> bool" where
  "shouldSkipCargoPath relPath =
     (if HasSuffix relPath ''.o'' then True
      else if HasSuffix relPath ''.d'' then True
      else if Contains relPath ''/incremental/'' \<or> HasPrefix relPath ''incremental/'' then True
      else if relPath = ''.cargo-lock'' then True
      else False)"

definition shouldSkipPath :: "string \<Rightarrow> string \<Rightarrow> bool" where
  "shouldSkipPath relPath artifactName =
     (if artifactName = ''cargo'' then shouldSkipCargoPath relPath else False)"

subsection \<open>Loops over the file system\<close>

text \<open>A loop whose body may fail: the first error ends it, with the state reached.\<close>

fun each :: "('a \<Rightarrow> world \<Rightarrow> world result) \<Rightarrow> 'a list \<Rightarrow> world \<Rightarrow> world result" where
  "each f [] w = (None, w)"
| "each f (x # xs) w =
     (case f x w of (Some e, w') \<Rightarrow> (Some e, w') | (None, w') \<Rightarrow> each f xs w')"

subsection \<open>copyFile, linkOrCopyFile\<close>

text \<open>\<open>copyFile\<close> opens the source, creates or truncates the destination and streams
  the bytes: a new file gets a fresh inode, an existing file is rewritten in place.
  A source or destination that is a symbolic link would be followed; the model
  reports it as an error instead.\<close>

definition copyFile :: "path \<Rightarrow> path \<Rightarrow> world \<Rightarrow> world result" where
  "copyFile src dst w =
     (case lookup (root w) src of
        None \<Rightarrow> (Some (OsError ENOENT), w)
      | Some (Dir es) \<Rightarrow> (Some (OsError EISDIR), w)
      | Some (Symlink t) \<Rightarrow> (Some (OsError ELOOP), w)
      | Some (File i) \<Rightarrow>
          (case lookup (root w) dst of
             Some (Dir es) \<Rightarrow> (Some (OsError EISDIR), w)
           | Some (Symlink t) \<Rightarrow> (Some (OsError ELOOP), w)
           | Some (File j) \<Rightarrow> (None, w\<lparr>inodes := (j, content w i) # inodes w\<rparr>)
           | None \<Rightarrow>
               (case put (root w) dst (File (next_ino w)) of
                  Inl e \<Rightarrow> (Some (OsError e), w)
                | Inr t \<Rightarrow>
                    (None, commit t (w\<lparr>inodes := (next_ino w, content w i) # inodes w,
                                       next_ino := Suc (next_ino w)\<rparr>)))))"

definition isHardlinkNotSupported :: "errno \<Rightarrow> bool" where
  "isHardlinkNotSupported e = (e = EXDEV \<or> e = ENOTSUP)"

definition isCrossDevice :: "errno \<Rightarrow> bool" where
  "isCrossDevice e = (e = EXDEV)"

definition linkOrCopyFile :: "os_env \<Rightarrow> path \<Rightarrow> path \<Rightarrow> world \<Rightarrow> world result" where
  "linkOrCopyFile X src dst w =
     (case lookup (root w) src of
        None \<Rightarrow> (Some (OsError ENOENT), w)
      | Some (Symlink target) \<Rightarrow>
          (case os_Symlink target dst w of
             Inl e \<Rightarrow> if e = EEXIST then (None, w)
                      else (Some (Wrap ''failed to create symlink'' (OsError e)), w)
           | Inr w' \<Rightarrow> (None, w'))
      | Some v \<Rightarrow>
          (case os_Link X src dst w of
             Inl e \<Rightarrow> if e = EEXIST then (None, w)
                      else if isHardlinkNotSupported e then copyFile src dst w
                      else (Some (OsError e), w)
           | Inr w' \<Rightarrow> (None, w')))"

text \<open>The wrapper waits for \<open>linkOrCopyFile\<close> up to the file time-out. A time-out is
  one of the failures \<open>link_fault\<close> stands for; an operation that completes after its
  caller gave up is not modelled.\<close>

definition linkOrCopyFileWithTimeout :: "os_env \<Rightarrow> path \<Rightarrow> path \<Rightarrow> world \<Rightarrow> world result" where
  "linkOrCopyFileWithTimeout X src dst w = linkOrCopyFile X src dst w"

subsection \<open>HardlinkTree, copyDir\<close>

text \<open>The callbacks of the two walks, on one entry: its path relative to the source and
  what \<open>Lstat\<close> said it is.\<close>

definition hardlink_entry :: "os_env \<Rightarrow> path \<Rightarrow> path \<Rightarrow> path \<times> node \<Rightarrow> world \<Rightarrow> world result" where
  "hardlink_entry X src dst e w =
     (case snd e of
        Dir es \<Rightarrow>
          (case os_MkdirAll (dst @ fst e) w of
             Inl er \<Rightarrow> (Some (OsError er), w) | Inr w' \<Rightarrow> (None, w'))
      | Symlink target \<Rightarrow>
          (case os_Symlink target (dst @ fst e) w of
             Inl er \<Rightarrow> if er = EEXIST then (None, w)
                       else (Some (Wrap ''failed to create symlink'' (OsError er)), w)
           | Inr w' \<Rightarrow> (None, w'))
      | File i \<Rightarrow>
          (case os_Link X (src @ fst e) (dst @ fst e) w of
             Inl er \<Rightarrow> if er = EEXIST then (None, w)
                       else if isHardlinkNotSupported er then copyFile (src @ fst e) (dst @ fst e) w
                       else (Some (OsError er), w)
           | Inr w' \<Rightarrow> (None, w')))"

definition HardlinkTree :: "os_env \<Rightarrow> path \<Rightarrow> path \<Rightarrow> world \<Rightarrow> world result" where
  "HardlinkTree X src dst w =
     (case lookup (root w) src of
        None \<Rightarrow> (Some (OsError ENOENT), w)
      | Some t \<Rightarrow> each (hardlink_entry X src dst) (walk (\<lambda>rel. False) [] t) w)"

definition copy_entry :: "path \<Rightarrow> path \<Rightarrow> path \<times> node \<Rightarrow> world \<Rightarrow> world result" where
  "copy_entry src dst e w =
     (case snd e of
        Dir es \<Rightarrow>
          (case os_MkdirAll (dst @ fst e) w of
             Inl er \<Rightarrow> (Some (OsError er), w) | Inr w' \<Rightarrow> (None, w'))
      | Symlink target \<Rightarrow>
          (case os_Symlink target (dst @ fst e) w of
             Inl er \<Rightarrow> if er = EEXIST then (None, w)
                       else (Some (Wrap ''failed to create symlink'' (OsError er)), w)
           | Inr w' \<Rightarrow> (None, w'))
      | File i \<Rightarrow> copyFile (src @ fst e) (dst @ fst e) w)"

definition copyDir :: "path \<Rightarrow> path \<Rightarrow> world \<Rightarrow> world result" where
  "copyDir src dst w =
     (case lookup (root w) src of
        None \<Rightarrow> (Some (OsError ENOENT), w)
      | Some t \<Rightarrow> each (copy_entry src dst) (walk (\<lambda>rel. False) [] t) w)"

subsection \<open>SeedDirectory\<close>

record SeedOptions =
  ArtifactName :: string
  Logger :: bool
  NumWorkers :: int
  OperationName :: string

text \<open>The walk phase collects the directories and, apart, the other entries that no
  skip rule matches; a directory whose relative path with a trailing slash matches a
  skip rule is not entered.\<close>

definition seed_walk :: "string \<Rightarrow> node \<Rightarrow> (path \<times> node) list" where
  "seed_walk artifactName t =
     walk (\<lambda>rel. shouldSkipPath (rel_string rel @ ''/'') artifactName) [] t"

definition seed_dirs :: "string \<Rightarrow> node \<Rightarrow> path list" where
  "seed_dirs artifactName t = map fst (filter (\<lambda>e. is_Dir (snd e)) (seed_walk artifactName t))"

definition seed_files :: "string \<Rightarrow> node \<Rightarrow> path list" where
  "seed_files artifactName t =
     map fst (filter (\<lambda>e. \<not> is_Dir (snd e) \<and> \<not> shouldSkipPath (rel_string (fst e)) artifactName)
                (seed_walk artifactName t))"

definition seed_mkdir :: "path \<Rightarrow> path \<Rightarrow> world \<Rightarrow> world result" where
  "seed_mkdir dst rel w =
     (case os_MkdirAll (dst @ rel) w of
        Inl e \<Rightarrow> (Some (Wrap ''failed to create directory'' (OsError e)), w)
      | Inr w' \<Rightarrow> (None, w'))"

definition seed_link :: "os_env \<Rightarrow> path \<Rightarrow> path \<Rightarrow> path \<Rightarrow> world \<Rightarrow> world result" where
  "seed_link X src dst rel w =
     (case linkOrCopyFileWithTimeout X (src @ rel) (dst @ rel) w of
        (Some e, w') \<Rightarrow> (Some (Wrap (''failed to link '' @ rel_string rel) e), w')
      | (None, w') \<Rightarrow> (None, w'))"

text \<open>The apply phase creates the directories, then hands the files to the workers.
  The workers are modelled by one loop in channel order that stops at the first error;
  the progress watchdog is not modelled.\<close>

definition SeedDirectory :: "os_env \<Rightarrow> path \<Rightarrow> path \<Rightarrow> SeedOptions \<Rightarrow> world \<Rightarrow> world result" where
  "SeedDirectory X src dst opts w =
     (case lookup (root w) src of
        None \<Rightarrow>
          (Some (Wrap (if Logger opts then ''failed to count files''
                       else ''failed to walk source directory'') (OsError ENOENT)), w)
      | Some t \<Rightarrow>
          (case each (seed_mkdir dst) (seed_dirs (ArtifactName opts) t) w of
             (Some e, w') \<Rightarrow> (Some e, w')
           | (None, w') \<Rightarrow> each (seed_link X src dst) (seed_files (ArtifactName opts) t) w'))"

section \<open>Cache store\<close>

subsection \<open>Cache paths and the fingerprint of a workspace\<close>

text \<open>A key file is read from the file system: a missing file is \<open>NotExist\<close>, a
  component below a file is another open error, a directory opens but cannot be read.
  A key file that is a symbolic link would be followed; the model reports it as an
  open error.\<close>

definition fs_read :: "world \<Rightarrow> path \<Rightarrow> file_read" where
  "fs_read w p =
     (case stat (root w) p of
        Inl e \<Rightarrow> if e = ENOENT then NotExist else OpenFailed ''not a directory''
      | Inr (File i) \<Rightarrow> Contents (content w i)
      | Inr (Dir es) \<Rightarrow> ReadFailed ''is a directory''
      | Inr (Symlink t) \<Rightarrow> OpenFailed ''too many levels of symbolic links'')"

definition key_env_of :: "os_env \<Rightarrow> world \<Rightarrow> key_env" where
  "key_env_of X w = \<lparr> sha256 = digest X, read_file = (\<lambda>s. fs_read w (components s)),
       run_in = shell X, proc_cwd = cwd X \<rparr>"

definition ComputeProjectID :: "os_env \<Rightarrow> string \<Rightarrow> string" where
  "ComputeProjectID X rootPath = take 12 (EncodeToString (digest X rootPath))"

definition GetProjectCacheDir :: "os_env \<Rightarrow> CacheManager \<Rightarrow> string \<Rightarrow> string" where
  "GetProjectCacheDir X cm rootPath = Join (LocalCacheDir cm) (ComputeProjectID X rootPath)"

definition GetArtifactCachePath :: "os_env \<Rightarrow> CacheManager \<Rightarrow> string \<Rightarrow> string \<Rightarrow> string \<Rightarrow> string" where
  "GetArtifactCachePath X cm rootPath artifactName key =
     Join (Join (GetProjectCacheDir X cm rootPath) artifactName) key"

record ArtifactCacheEntry =
  EntryName :: string
  Key :: string
  CachePath :: path
  EnvPaths :: "path list"
  Hit :: bool

text \<open>\<open>PrepareArtifactCache\<close> for one artifact: the hit signal is the existence of the
  cache-entry directory.\<close>

definition prepare_entry ::
  "os_env \<Rightarrow> CacheManager \<Rightarrow> string \<Rightarrow> string \<Rightarrow> world \<Rightarrow> ArtifactConfig \<Rightarrow> key_error + ArtifactCacheEntry" where
  "prepare_entry X cm rootPath envPath w artifact =
     (case ComputeCacheKey (key_env_of X w) artifact envPath of
        Inl e \<Rightarrow> Inl e
      | Inr key \<Rightarrow>
          Inr \<lparr> EntryName = Name artifact, Key = key,
                CachePath = components (GetArtifactCachePath X cm rootPath (Name artifact) key),
                EnvPaths = map (\<lambda>p. components (Join envPath p)) (Paths artifact),
                Hit = dirExists w (components (GetArtifactCachePath X cm rootPath (Name artifact) key)) \<rparr>)"

subsection \<open>StoreToCache\<close>

definition store_path :: "os_env \<Rightarrow> path \<Rightarrow> path \<Rightarrow> world \<Rightarrow> world result" where
  "store_path X cachePath envPath w =
     (if \<not> dirExists w envPath then (None, w)
      else (case os_Rename X envPath (cachePath @ Base envPath) w of
              Inl e \<Rightarrow> (Some (Wrap ''failed to move to cache'' (OsError e)), w)
            | Inr w' \<Rightarrow>
                (case HardlinkTree X (cachePath @ Base envPath) envPath w' of
                   (Some e, w'') \<Rightarrow> (Some (Wrap ''failed to hardlink back from cache'' e), w'')
                 | (None, w'') \<Rightarrow> (None, w''))))"

definition StoreToCache :: "os_env \<Rightarrow> ArtifactCacheEntry \<Rightarrow> world \<Rightarrow> world result" where
  "StoreToCache X entry w =
     (case os_MkdirAll (CachePath entry) w of
        Inl e \<Rightarrow> (Some (Wrap ''failed to create cache dir'' (OsError e)), w)
      | Inr w' \<Rightarrow> each (store_path X (CachePath entry)) (EnvPaths entry) w')"

subsection \<open>The advisory lock\<close>

text \<open>The lock file of a cache entry is the entry's path with \<open>.lock\<close> appended.\<close>

definition lock_path :: "path \<Rightarrow> path" where
  "lock_path cachePath =
     (if cachePath = [] then [''.lock''] else butlast cachePath @ [last cachePath @ ''.lock''])"

text \<open>\<open>os.OpenFile\<close> with \<open>O_CREATE|O_RDWR\<close>: an existing file is opened, a missing
  one is created empty.\<close>

definition open_create :: "path \<Rightarrow> world \<Rightarrow> errno + world" where
  "open_create p w =
     (case lookup (root w) p of
        Some (File i) \<Rightarrow> Inr w
      | Some (Dir es) \<Rightarrow> Inl EISDIR
      | Some (Symlink t) \<Rightarrow> Inl ELOOP
      | None \<Rightarrow>
          (case put (root w) p (File (next_ino w)) of
             Inl e \<Rightarrow> Inl e
           | Inr t \<Rightarrow> Inr (commit t (w\<lparr>inodes := (next_ino w, []) # inodes w,
                                        next_ino := Suc (next_ino w)\<rparr>))))"

text \<open>The result of \<open>acquireCacheLock\<close>: an error, or the handle (the lock file's path)
  or no handle when the non-blocking lock is refused; with the state reached.\<close>

definition acquireCacheLock :: "os_env \<Rightarrow> path \<Rightarrow> world \<Rightarrow> (errno + path option) \<times> world" where
  "acquireCacheLock X cachePath w =
     (case os_MkdirAll (butlast (lock_path cachePath)) w of
        Inl e \<Rightarrow> (Inl e, w)
      | Inr w1 \<Rightarrow>
          (case open_create (lock_path cachePath) w1 of
             Inl e \<Rightarrow> (Inl e, w1)
           | Inr w2 \<Rightarrow>
               if lock_held X (lock_path cachePath) then (Inr None, w2)
               else (Inr (Some (lock_path cachePath)), w2)))"

subsection \<open>Sync\<close>

record SyncOptions =
  HardlinkBack :: bool

definition copyToCache :: "path \<Rightarrow> path \<Rightarrow> bool \<Rightarrow> world \<Rightarrow> world result" where
  "copyToCache localPath targetInCache hardlinkBack w =
     (case copyDir localPath targetInCache w of
        (Some e, w') \<Rightarrow> (Some e, w')
      | (None, w') \<Rightarrow> if hardlinkBack then (None, w') else (None, os_RemoveAll localPath w'))"

text \<open>The part of \<open>moveToCache\<close> that runs under the lock.\<close>

definition move_locked :: "os_env \<Rightarrow> path \<Rightarrow> path \<Rightarrow> bool \<Rightarrow> world \<Rightarrow> world result" where
  "move_locked X localPath cachePath hardlinkBack w =
     (if dirExists w (cachePath @ Base localPath) then (None, w)
      else (case os_MkdirAll cachePath w of
              Inl e \<Rightarrow> (Some (OsError e), w)
            | Inr w1 \<Rightarrow>
                (case os_Rename X localPath (cachePath @ Base localPath) w1 of
                   Inl e \<Rightarrow>
                     if isCrossDevice e
                     then copyToCache localPath (cachePath @ Base localPath) hardlinkBack w1
                     else (Some (OsError e), w1)
                 | Inr w2 \<Rightarrow>
                     if hardlinkBack
                     then (case HardlinkTree X (cachePath @ Base localPath) localPath w2 of
                             (Some e, w3) \<Rightarrow>
                               (case os_Rename X (cachePath @ Base localPath) localPath w3 of
                                  Inl re \<Rightarrow> (Some (RecoveryFailed e re), os_RemoveAll cachePath w3)
                                | Inr w4 \<Rightarrow> (Some (Recovered e), os_RemoveAll cachePath w4))
                           | (None, w3) \<Rightarrow> (None, w3))
                     else (None, w2))))"

definition moveToCache :: "os_env \<Rightarrow> path \<Rightarrow> path \<Rightarrow> bool \<Rightarrow> world \<Rightarrow> world result" where
  "moveToCache X localPath cachePath hardlinkBack w =
     (case acquireCacheLock X cachePath w of
        (Inl e, w') \<Rightarrow> (Some (OsError e), w')
      | (Inr None, w') \<Rightarrow> (None, w')
      | (Inr (Some lock), w') \<Rightarrow> move_locked X localPath cachePath hardlinkBack w')"

definition isBuildInProgress :: "world \<Rightarrow> string \<Rightarrow> ArtifactConfig \<Rightarrow> bool" where
  "isBuildInProgress w envPath artifact =
     (if Name artifact = ''cargo''
      then fileExists w (components (Join (Join envPath ''target'') ''.cargo-lock''))
      else False)"

definition sync_path :: "os_env \<Rightarrow> string \<Rightarrow> path \<Rightarrow> bool \<Rightarrow> string \<Rightarrow> world \<Rightarrow> world result" where
  "sync_path X envPath cachePath hardlinkBack p w =
     (if \<not> dirExists w (components (Join envPath p)) then (None, w)
      else (case moveToCache X (components (Join envPath p)) cachePath hardlinkBack w of
              (Some e, w') \<Rightarrow> (Some (Wrap ''failed to sync'' e), w')
            | (None, w') \<Rightarrow> (None, w')))"

definition syncArtifact ::
  "os_env \<Rightarrow> CacheManager \<Rightarrow> ArtifactConfig \<Rightarrow> string \<Rightarrow> string \<Rightarrow> SyncOptions \<Rightarrow> world \<Rightarrow> world result" where
  "syncArtifact X cm artifact rootPath envPath opts w =
     (if isBuildInProgress w envPath artifact
      then (Some (BuildInProgress (Name artifact)), w)
      else (case ComputeCacheKey (key_env_of X w) artifact envPath of
              Inl e \<Rightarrow> (Some (Wrap ''failed to compute cache key'' (KeyError e)), w)
            | Inr key \<Rightarrow>
                if dirExists w (components (GetArtifactCachePath X cm rootPath (Name artifact) key))
                then (None, w)
                else each (sync_path X envPath
                             (components (GetArtifactCachePath X cm rootPath (Name artifact) key))
                             (HardlinkBack opts))
                       (Paths artifact) w))"


subsection \<open>Seed from the project root\<close>

definition seedToCache :: "os_env \<Rightarrow> path \<Rightarrow> path \<Rightarrow> string \<Rightarrow> bool \<Rightarrow> world \<Rightarrow> world result" where
  "seedToCache X sourcePath cachePath artifactName logger w =
     (case os_MkdirAll cachePath w of
        Inl e \<Rightarrow> (Some (OsError e), w)
      | Inr w1 \<Rightarrow>
          if dirExists w1 (cachePath @ Base sourcePath) then (None, w1)
          else (case SeedDirectory X sourcePath (cachePath @ Base sourcePath)
                       \<lparr> ArtifactName = artifactName, Logger = logger, NumWorkers = 0,
                         OperationName = [] \<rparr> w1 of
                  (Some e, w2) \<Rightarrow> (Some e, os_RemoveAll (cachePath @ Base sourcePath) w2)
                | (None, w2) \<Rightarrow> (None, w2)))"

definition seed_path :: "os_env \<Rightarrow> string \<Rightarrow> path \<Rightarrow> string \<Rightarrow> bool \<Rightarrow> string \<Rightarrow> world \<Rightarrow> world result" where
  "seed_path X rootPath cachePath artifactName logger p w =
     (if \<not> dirExists w (components (Join rootPath p)) then (None, w)
      else (case seedToCache X (components (Join rootPath p)) cachePath artifactName logger w of
              (Some e, w') \<Rightarrow> (Some (Wrap ''failed to seed from root'' e), w')
            | (None, w') \<Rightarrow> (None, w')))"

definition seedArtifactFromRoot ::
  "os_env \<Rightarrow> CacheManager \<Rightarrow> ArtifactConfig \<Rightarrow> string \<Rightarrow> string \<Rightarrow> bool \<Rightarrow> world \<Rightarrow> world result" where
  "seedArtifactFromRoot X cm artifact rootPath envPath logger w =
     (if rootPath = envPath then (None, w)
      else (case ComputeCacheKey (key_env_of X w) artifact envPath of
              Inl e \<Rightarrow> (Some (Wrap ''failed to compute cache key for env'' (KeyError e)), w)
            | Inr envKey \<Rightarrow>
                if dirExists w (components (GetArtifactCachePath X cm rootPath (Name artifact) envKey))
                then (None, w)
                else (case ComputeCacheKey (key_env_of X w) artifact rootPath of
                        Inl e \<Rightarrow> (Some (Wrap ''failed to compute cache key for root'' (KeyError e)), w)
                      | Inr rootKey \<Rightarrow>
                          if envKey \<noteq> rootKey then (None, w)
                          else if isBuildInProgress w rootPath artifact then (None, w)
                          else each (seed_path X rootPath
                                       (components (GetArtifactCachePath X cm rootPath (Name artifact) envKey))
                                       (Name artifact) logger)
                                 (Paths artifact) w)))"

definition SeedFromRoot ::
  "os_env \<Rightarrow> CacheManager \<Rightarrow> ArtifactConfig list \<Rightarrow> string \<Rightarrow> string \<Rightarrow> bool \<Rightarrow> world \<Rightarrow> world result" where
  "SeedFromRoot X cm artifacts rootPath envPath logger w =
     each (\<lambda>artifact. seedArtifactFromRoot X cm artifact rootPath envPath logger) artifacts w"

section \<open>Example machines\<close>

text \<open>One device, no failure from outside, no lock held elsewhere.\<close>

definition env_plain :: os_env where
  "env_plain = \<lparr> device = (\<lambda>p. 0), link_fault = (\<lambda>p. None), lock_held = (\<lambda>p. False),
       digest = pad_digest, shell = (\<lambda>dir cmd. CmdOutput []), cwd = ''/home'' \<rparr>"


text \<open>One file of the project root may not be linked.\<close>

definition env_eperm :: os_env where
  "env_eperm = env_plain \<lparr> link_fault :=
       (\<lambda>p. if p = [''p'', ''target'', ''good.rlib''] then Some NotPermitted else None) \<rparr>"

text \<open>Another process holds the lock of the entry \<open>/cache/k1\<close>.\<close>

definition env_locked :: os_env where
  "env_locked = env_plain \<lparr> lock_held := (\<lambda>p. p = [''cache'', ''k1.lock'']) \<rparr>"

text \<open>A project root \<open>/p\<close> with a built \<open>target\<close> and a workspace \<open>/p/w1\<close> with the
  same manifest; an empty cache directory \<open>/cache\<close>.\<close>

definition world_cargo :: world where
  "world_cargo = \<lparr> root = Dir [(''cache'', Dir []),
       (''p'', Dir [(''Cargo.lock'', File 1),
                   (''target'', Dir [(''a.o'', File 2), (''good.rlib'', File 3),
                                    (''incremental'', Dir [(''c.rmeta'', File 4)]),
                                    (''dep.d'', Symlink ''../x''),
                                    (''link'', Symlink ''../real'')]),
                   (''w1'', Dir [(''Cargo.lock'', File 5)])])],
       inodes = [(1, ''A''), (5, ''A'')], next_ino = 10, history = [] \<rparr>"

text \<open>The same machine with the lock file of \<open>/cache/k1\<close> in place.\<close>

definition world_locked :: world where
  "world_locked = \<lparr> root = Dir [(''cache'', Dir [(''k1.lock'', File 9)]),
       (''p'', Dir [(''target'', Dir [(''good.rlib'', File 3)])])],
       inodes = [], next_ino = 10, history = [] \<rparr>"

definition cm_cache :: CacheManager where
  "cm_cache = \<lparr> HomeDir = ''/'', LocalCacheDir = ''/cache'', SccacheAvailable = False \<rparr>"

definition entry_k1 :: ArtifactCacheEntry where
  "entry_k1 = \<lparr> EntryName = ''cargo'', Key = ''k1'', CachePath = [''cache'', ''k1''],
       EnvPaths = [[''p'', ''target'']], Hit = False \<rparr>"




definition sync_move :: SyncOptions where
  "sync_move = \<lparr> HardlinkBack = False \<rparr>"

section \<open>Relations between states\<close>

text \<open>\<open>tkeeps t t'\<close>: every entry of \<open>t\<close> is still there in \<open>t'\<close>, a directory as a
  directory and a file or link unchanged. \<open>toutside d t t'\<close>: the two trees agree at
  every path that is neither above nor below \<open>d\<close>. \<open>keeps\<close> and \<open>outside\<close> are the
  same for states; \<open>keeps\<close> also says that the history only grew.\<close>

definition tkeeps :: "node \<Rightarrow> node \<Rightarrow> bool" where
  "tkeeps t t' = (\<forall>q x. lookup t q = Some x \<longrightarrow>
      (\<exists>y. lookup t' q = Some y \<and> (is_Dir x \<longrightarrow> is_Dir y) \<and> (\<not> is_Dir x \<longrightarrow> y = x)))"

definition keeps :: "world \<Rightarrow> world \<Rightarrow> bool" where
  "keeps w w' = (tkeeps (root w) (root w') \<and> prefix (history w) (history w'))"

definition toutside :: "path \<Rightarrow> node \<Rightarrow> node \<Rightarrow> bool" where
  "toutside d t t' = (\<forall>q. \<not> prefix q d \<and> \<not> prefix d q \<longrightarrow> lookup t' q = lookup t q)"

definition outside :: "path \<Rightarrow> world \<Rightarrow> world \<Rightarrow> bool" where
  "outside d w w' = toutside d (root w) (root w')"

text \<open>\<open>adds S w w'\<close>: every file or link of \<open>w'\<close> was already there, unchanged, in \<open>w\<close>,
  or sits at a path of \<open>S\<close>.\<close>

definition adds :: "path set \<Rightarrow> world \<Rightarrow> world \<Rightarrow> bool" where
  "adds S w w' = (\<forall>q x. lookup (root w') q = Some x \<and> \<not> is_Dir x \<longrightarrow>
      lookup (root w) q = Some x \<or> q \<in> S)"


text \<open>No directory on the way to a relative path is skipped by the walk of
  \<open>SeedDirectory\<close>.\<close>

definition entered :: "string \<Rightarrow> path \<Rightarrow> bool" where
  "entered artifactName r =
     (\<forall>d. strict_prefix d r \<longrightarrow> \<not> shouldSkipPath (rel_string d @ ''/'') artifactName)"

text \<open>The paths at which \<open>SeedDirectory\<close> may create a file or a link below \<open>dst\<close>:
  the relative path matches no skip rule and no directory above it is skipped.\<close>

definition seed_targets :: "path \<Rightarrow> string \<Rightarrow> path set" where
  "seed_targets dst artifactName =
     {q. \<exists>r. q = dst @ r \<and> \<not> shouldSkipPath (rel_string r) artifactName \<and> entered artifactName r}"


section \<open>Properties\<close>

subsection \<open>Fingerprint\<close>

lemma hextable_nth_lower: "n < 16 \<Longrightarrow> is_lower_hex (hextable ! n)"
  unfolding is_lower_hex_def by (rule nth_mem) (simp add: hextable_def)

lemma EncodeToString_length: "length (EncodeToString bs) = 2 * length bs"
  unfolding EncodeToString_def by (induction bs) simp_all

lemma EncodeToString_lower: "c \<in> set (EncodeToString bs) \<Longrightarrow> is_lower_hex c"
proof -
  have d: "of_char b div 16 < (16::nat)" for b :: char
  proof -
    have "of_char b < (256::nat)" by (rule nat_of_char_less_256)
    then show ?thesis by arith
  qed
  assume "c \<in> set (EncodeToString bs)"
  then obtain b where "c = hextable ! (of_char b div 16) \<or> c = hextable ! (of_char b mod 16)"
    unfolding EncodeToString_def by auto
  then show ?thesis using d [of b] hextable_nth_lower by auto
qed

lemma hash_key_files_ok:
  "\<forall>f \<in> set kfs. key_file_ok E p f \<Longrightarrow>
   hash_key_files E p kfs h = Inr (h @ concat (map (file_bytes E p) kfs))"
  by (induction kfs arbitrary: h)
     (auto simp: key_file_ok_def file_bytes_def split: file_read.splits)

lemma hash_key_files_bad:
  "\<exists>f \<in> set kfs. \<not> key_file_ok E p f \<Longrightarrow> isl (hash_key_files E p kfs h)"
  by (induction kfs arbitrary: h)
     (auto simp: key_file_ok_def split: file_read.splits)

lemma hash_key_commands_ok:
  "\<forall>c \<in> set cs. cmd_ok E c \<Longrightarrow>
   hash_key_commands E cs h = Inr (h @ concat (map (cmd_bytes E) cs))"
  by (induction cs arbitrary: h)
     (auto simp: cmd_ok_def cmd_bytes_def split: cmd_result.splits)

lemma hash_key_commands_bad:
  "\<exists>c \<in> set cs. \<not> cmd_ok E c \<Longrightarrow> isl (hash_key_commands E cs h)"
  by (induction cs arbitrary: h)
     (auto simp: cmd_ok_def split: cmd_result.splits)

lemma absent_bytes:
  "\<forall>f \<in> set kfs. key_file_absent E p f \<Longrightarrow> concat (map (file_bytes E p) kfs) = []"
  by (induction kfs) (auto simp: key_file_absent_def file_bytes_def)

lemma absent_ok: "key_file_absent E p f \<Longrightarrow> key_file_ok E p f"
  by (simp add: key_file_absent_def key_file_ok_def)

lemma hash_key_files_same:
  "\<forall>f \<in> set kfs. read_file E (Join p f) = read_file E (Join q f) \<Longrightarrow>
   hash_key_files E p kfs h = hash_key_files E q kfs h"
  by (induction kfs arbitrary: h) (auto split: file_read.splits)

lemma pad_digest_length: "length (pad_digest bs) = 32"
  by (simp add: pad_digest_def)

text \<open>
  C1 (as stated, refuted). The artifact has one key file, which exists but cannot be
  opened (permission denied), and no key command: it has no readable key file and no
  key command, yet the fingerprint is an error, not the digest prefix of the empty
  string.
\<close>

theorem C1_unreadable_key_file_counterexample:
  "KeyFiles art_lock_only = [''Cargo.lock''] \<and> KeyCommands art_lock_only = [] \<and>
   key_file_unreadable env_denied ''/w'' ''Cargo.lock'' \<and>
   ComputeCacheKey env_denied art_lock_only ''/w''
     = Inl (KeyFileReadFailed ''Cargo.lock'' ''permission denied'') \<and>
   ComputeCacheKey env_denied art_lock_only ''/w''
     \<noteq> Inr (take 16 (EncodeToString (sha256 env_denied [])))"
  by (simp add: art_lock_only_def env_denied_def key_file_unreadable_def
        ComputeCacheKey_def Join_def)

text \<open>
  C1 (amended). With a 32-byte digest: when every key file is absent or readable and
  every key command succeeds, the key is the first 16 characters, all lowercase hex, of
  the hex digest of the bytes of the present key files in list order followed by the
  output of the key commands in list order; a failing key command is an error; a key
  file that exists but cannot be opened or read is an error; and when every key file is
  absent and there is no key command the key is the 16-character prefix of the digest
  of the empty string.
\<close>

theorem C1_ComputeCacheKey_digest_prefix:
  assumes "\<forall>x. length (sha256 E x) = 32"
  shows "((\<forall>f \<in> set (KeyFiles a). key_file_ok E p f) \<and> (\<forall>c \<in> set (KeyCommands a). cmd_ok E c) \<longrightarrow>
            (\<exists>k. ComputeCacheKey E a p = Inr k \<and>
              k = take 16 (EncodeToString (sha256 E
                    (concat (map (file_bytes E p) (KeyFiles a)) @
                     concat (map (cmd_bytes E) (KeyCommands a))))) \<and>
              length k = 16 \<and> (\<forall>c \<in> set k. is_lower_hex c))) \<and>
         ((\<forall>f \<in> set (KeyFiles a). key_file_ok E p f) \<and> (\<exists>c \<in> set (KeyCommands a). \<not> cmd_ok E c) \<longrightarrow>
            isl (ComputeCacheKey E a p)) \<and>
         ((\<exists>f \<in> set (KeyFiles a). \<not> key_file_ok E p f) \<longrightarrow> isl (ComputeCacheKey E a p)) \<and>
         ((\<forall>f \<in> set (KeyFiles a). key_file_absent E p f) \<and> KeyCommands a = [] \<longrightarrow>
            ComputeCacheKey E a p = Inr (take 16 (EncodeToString (sha256 E []))))"
proof (intro conjI impI)
  assume h: "(\<forall>f \<in> set (KeyFiles a). key_file_ok E p f) \<and> (\<forall>c \<in> set (KeyCommands a). cmd_ok E c)"
  let ?k = "take 16 (EncodeToString (sha256 E
                    (concat (map (file_bytes E p) (KeyFiles a)) @
                     concat (map (cmd_bytes E) (KeyCommands a)))))"
  have 1: "ComputeCacheKey E a p = Inr ?k"
    using h by (simp add: ComputeCacheKey_def hash_key_files_ok hash_key_commands_ok)
  have 2: "length ?k = 16" using assms by (simp add: EncodeToString_length)
  have 3: "\<forall>c \<in> set ?k. is_lower_hex c"
    by (meson EncodeToString_lower in_set_takeD)
  show "\<exists>k. ComputeCacheKey E a p = Inr k \<and> k = ?k \<and> length k = 16 \<and> (\<forall>c \<in> set k. is_lower_hex c)"
    using 1 2 3 by blast
next
  assume h: "(\<forall>f \<in> set (KeyFiles a). key_file_ok E p f) \<and> (\<exists>c \<in> set (KeyCommands a). \<not> cmd_ok E c)"
  then have "isl (hash_key_commands E (KeyCommands a) (concat (map (file_bytes E p) (KeyFiles a))))"
    using hash_key_commands_bad by blast
  then show "isl (ComputeCacheKey E a p)"
    using h by (auto simp: ComputeCacheKey_def hash_key_files_ok split: sum.splits)
next
  assume "\<exists>f \<in> set (KeyFiles a). \<not> key_file_ok E p f"
  then have "isl (hash_key_files E p (KeyFiles a) [])" by (rule hash_key_files_bad)
  then show "isl (ComputeCacheKey E a p)"
    by (auto simp: ComputeCacheKey_def split: sum.splits)
next
  assume h: "(\<forall>f \<in> set (KeyFiles a). key_file_absent E p f) \<and> KeyCommands a = []"
  then have "\<forall>f \<in> set (KeyFiles a). key_file_ok E p f" using absent_ok by blast
  then show "ComputeCacheKey E a p = Inr (take 16 (EncodeToString (sha256 E [])))"
    using h by (simp add: ComputeCacheKey_def hash_key_files_ok absent_bytes)
qed

text \<open>The amended C1 at four inputs: a present and an absent key file with a succeeding
  command; a failing command; an unreadable key file; only an absent key file.\<close>

theorem C1_ComputeCacheKey_digest_prefix_witness:
  "(\<forall>x. length (sha256 env_two x) = 32) \<and>
   ComputeCacheKey env_two art_cargo ''/ws''
     = Inr (take 16 (EncodeToString (pad_digest ''L1/home''))) \<and>
   ComputeCacheKey env_two art_cargo ''/ws'' = Inr ''4c312f686f6d6500'' \<and>
   isl (ComputeCacheKey env_two art_bad_cmd ''/ws'') \<and>
   isl (ComputeCacheKey env_denied art_lock_only ''/w'') \<and>
   ComputeCacheKey env_two art_absent ''/ws''
     = Inr (take 16 (EncodeToString (pad_digest [])))"
proof -
  have len2: "\<forall>x. length (sha256 env_two x) = 32"
    by (simp add: env_two_def pad_digest_length)
  have lenD: "\<forall>x. length (sha256 env_denied x) = 32"
    by (simp add: env_denied_def pad_digest_length)
  have a: "ComputeCacheKey env_two art_cargo ''/ws''
             = Inr (take 16 (EncodeToString (pad_digest ''L1/home'')))"
    using C1_ComputeCacheKey_digest_prefix [OF len2, of art_cargo "''/ws''"]
    by (simp add: env_two_def art_cargo_def key_file_ok_def cmd_ok_def file_bytes_def
          cmd_bytes_def Join_def)
  have a': "take 16 (EncodeToString (pad_digest ''L1/home'')) = ''4c312f686f6d6500''"
    by code_simp
  have b: "isl (ComputeCacheKey env_two art_bad_cmd ''/ws'')"
    using C1_ComputeCacheKey_digest_prefix [OF len2, of art_bad_cmd "''/ws''"]
    by (simp add: env_two_def art_bad_cmd_def key_file_ok_def cmd_ok_def Join_def)
  have c: "isl (ComputeCacheKey env_denied art_lock_only ''/w'')"
    using C1_ComputeCacheKey_digest_prefix [OF lenD, of art_lock_only "''/w''"]
    by (simp add: env_denied_def art_lock_only_def key_file_ok_def Join_def)
  have d: "ComputeCacheKey env_two art_absent ''/ws''
             = Inr (take 16 (EncodeToString (pad_digest [])))"
    using C1_ComputeCacheKey_digest_prefix [OF len2, of art_absent "''/ws''"]
    by (simp add: env_two_def art_absent_def key_file_absent_def Join_def)
  show ?thesis using len2 a a' b c d by simp
qed

text \<open>
  C10. The fingerprint does not depend on the workspace path beyond the key files: if
  every key file reads the same at two paths (the same bytes, absent at both, or the
  same error), \<open>ComputeCacheKey\<close> returns the same result at both, whatever the key
  commands would print in either directory. They run in the working directory of the
  calling process.
\<close>

theorem C10_key_commands_independent_of_workspace:
  assumes "\<forall>f \<in> set (KeyFiles a). read_file E (Join p f) = read_file E (Join q f)"
  shows "ComputeCacheKey E a p = ComputeCacheKey E a q"
  using hash_key_files_same [OF assms] by (simp add: ComputeCacheKey_def)

text \<open>C10 at a root and a workspace with the same manifest, where the key command prints
  its working directory: both fingerprints hash the process's directory.\<close>

theorem C10_key_commands_independent_of_workspace_witness:
  "KeyFiles art_cargo = [''Cargo.lock'', ''rust-toolchain''] \<and>
   read_file env_two (Join ''/root'' ''Cargo.lock'') = Contents ''L1'' \<and>
   read_file env_two (Join ''/ws'' ''Cargo.lock'') = Contents ''L1'' \<and>
   read_file env_two (Join ''/root'' ''rust-toolchain'') = NotExist \<and>
   read_file env_two (Join ''/ws'' ''rust-toolchain'') = NotExist \<and>
   run_in env_two ''/root'' ''pwd'' \<noteq> run_in env_two ''/ws'' ''pwd'' \<and>
   ComputeCacheKey env_two art_cargo ''/root'' = ComputeCacheKey env_two art_cargo ''/ws''"
proof -
  have h: "\<forall>f \<in> set (KeyFiles art_cargo).
      read_file env_two (Join ''/root'' f) = read_file env_two (Join ''/ws'' f)"
    by (simp add: art_cargo_def env_two_def Join_def)
  have n: "run_in env_two ''/root'' ''pwd'' \<noteq> run_in env_two ''/ws'' ''pwd''"
    by (simp add: env_two_def)
  have r: "KeyFiles art_cargo = [''Cargo.lock'', ''rust-toolchain''] \<and>
     read_file env_two (Join ''/root'' ''Cargo.lock'') = Contents ''L1'' \<and>
     read_file env_two (Join ''/ws'' ''Cargo.lock'') = Contents ''L1'' \<and>
     read_file env_two (Join ''/root'' ''rust-toolchain'') = NotExist \<and>
     read_file env_two (Join ''/ws'' ''rust-toolchain'') = NotExist"
    by (simp add: art_cargo_def env_two_def Join_def)
  show ?thesis
    using r n C10_key_commands_independent_of_workspace [OF h] by simp
qed

subsection \<open>Environment contribution\<close>

text \<open>
  C3 (as stated, refuted). With strategy layered and no sccache on the PATH the
  contribution is empty (no CARGO_HOME, npm_config_cache, YARN_CACHE_FOLDER or
  PNPM_HOME); with strategy none and sccache on the PATH it is not empty.
\<close>

theorem C3_EnvVars_counterexample:
  "Strategy cfg_layered \<noteq> ''none'' \<and> EnvVars cm_no_sccache cfg_layered = [] \<and>
   Strategy cfg_none = ''none'' \<and> EnvVars cm_sccache cfg_none = [''RUSTC_WRAPPER=sccache'']"
  by (simp add: cfg_layered_def cfg_none_def cm_no_sccache_def cm_sccache_def EnvVars_def
        shouldEnableSccache_def)

text \<open>
  C3 (amended). Whatever the strategy, \<open>EnvVars\<close> contributes exactly
  \<open>RUSTC_WRAPPER=sccache\<close> when sccache is on the PATH and the configuration does not
  switch it off, and nothing otherwise.
\<close>

theorem C3_EnvVars_only_rustc_wrapper:
  "EnvVars cm cfg =
     (if SccacheAvailable cm \<and> Sccache cfg \<noteq> Some False
      then [''RUSTC_WRAPPER=sccache''] else [])"
  by (auto simp: EnvVars_def shouldEnableSccache_def split: option.splits)

subsection \<open>Lookup after an update of the tree\<close>

lemma map_of_upd: "map_of (upd n v es) k = (if k = n then Some v else map_of es k)"
  by (induction es) auto

lemma map_of_rm: "map_of (rm n es) k = (if k = n then None else map_of es k)"
  unfolding rm_def by (induction es) auto

lemma upd_same: "map_of es n = Some c \<Longrightarrow> upd n c es = es"
  by (induction es) (auto split: if_splits)

lemma lookup_append:
  "lookup t (p @ q) = (case lookup t p of None \<Rightarrow> None | Some c \<Rightarrow> lookup c q)"
  by (induction t p rule: lookup.induct) (auto split: option.splits)

lemma lookup_Dir_Cons:
  "lookup (Dir es) (n # p) = (case map_of es n of None \<Rightarrow> None | Some c \<Rightarrow> lookup c p)"
  by simp

lemma put_Dir_Cons:
  "put (Dir es) (n # p) v =
     (if p = [] then Inr (Dir (upd n v es))
      else (case map_of es n of
        None \<Rightarrow> Inl ENOENT
      | Some c \<Rightarrow> (case put c p v of Inl e \<Rightarrow> Inl e | Inr c' \<Rightarrow> Inr (Dir (upd n c' es)))))"
  by (cases p) auto

lemma put_leaf_Cons: "\<not> is_Dir t \<Longrightarrow> put t (n # p) v = Inl ENOTDIR"
  by (cases t) auto

lemma del_Dir_Cons:
  "del (Dir es) (n # p) =
     (if p = [] then Dir (rm n es)
      else (case map_of es n of None \<Rightarrow> Dir es | Some c \<Rightarrow> Dir (upd n (del c p) es)))"
  by (cases p) auto

lemma del_leaf: "\<not> is_Dir t \<Longrightarrow> del t p = t"
  by (cases t; cases p) auto

lemma put_lookup_below: "put t p v = Inr t' \<Longrightarrow> lookup t' (p @ r) = lookup v r"
proof (induction p arbitrary: t t')
  case Nil then show ?case by simp
next
  case (Cons n p)
  show ?case
  proof (cases t)
    case (Dir es)
    with Cons show ?thesis
      by (auto simp: put_Dir_Cons map_of_upd split: if_splits option.splits sum.splits)
  qed (use Cons in auto)
qed

lemma put_lookup_same: "put t p v = Inr t' \<Longrightarrow> lookup t' p = Some v"
  using put_lookup_below [of t p v t' "[]"] by simp

lemma put_frame:
  "put t p v = Inr t' \<Longrightarrow> \<not> prefix q p \<Longrightarrow> \<not> prefix p q \<Longrightarrow> lookup t' q = lookup t q"
proof (induction p arbitrary: t t' q)
  case Nil then show ?case by simp
next
  case (Cons n p)
  then obtain m q' where q: "q = m # q'" by (cases q) auto
  show ?case
  proof (cases t)
    case (Dir es)
    show ?thesis
    proof (cases "m = n")
      case True
      with Cons q Dir show ?thesis
        by (auto simp: put_Dir_Cons map_of_upd split: if_splits option.splits sum.splits)
    next
      case False
      with Cons q Dir show ?thesis
        by (auto simp: put_Dir_Cons map_of_upd split: if_splits option.splits sum.splits)
    qed
  qed (use Cons in auto)
qed

lemma put_above:
  "put t p v = Inr t' \<Longrightarrow> strict_prefix q p \<Longrightarrow>
   (\<exists>es. lookup t q = Some (Dir es)) \<and> (\<exists>es. lookup t' q = Some (Dir es))"
proof (induction p arbitrary: t t' q)
  case Nil then show ?case by simp
next
  case (Cons n p)
  show ?case
  proof (cases t)
    case (Dir es)
    show ?thesis
    proof (cases q)
      case Nil
      with Cons Dir show ?thesis
        by (auto simp: put_Dir_Cons split: if_splits option.splits sum.splits)
    next
      case (Cons m q')
      with Cons.prems Cons.IH Dir show ?thesis
        by (auto simp: put_Dir_Cons map_of_upd split: if_splits option.splits sum.splits)
    qed
  qed (use Cons in auto)
qed

lemma mkdir_all_Dir_Cons:
  "mkdir_all (Dir es) (n # p) =
     (case map_of es n of
        None \<Rightarrow> (case mkdir_all (Dir []) p of
                   Inl e \<Rightarrow> Inl e | Inr c' \<Rightarrow> Inr (Dir (upd n c' es)))
      | Some c \<Rightarrow> (case mkdir_all c p of
                   Inl e \<Rightarrow> Inl e | Inr c' \<Rightarrow> Inr (Dir (upd n c' es))))"
  by simp

lemma mkdir_all_leaf: "\<not> is_Dir t \<Longrightarrow> mkdir_all t p = Inl ENOTDIR"
  by (cases t; cases p) auto

lemma mkdir_all_result_dir: "mkdir_all t p = Inr t' \<Longrightarrow> is_Dir t \<and> is_Dir t'"
  by (cases t; cases p) (auto split: option.splits sum.splits)

lemma mkdir_all_prefix:
  "mkdir_all t p = Inr t' \<Longrightarrow> prefix q p \<Longrightarrow> \<exists>es. lookup t' q = Some (Dir es)"
proof (induction p arbitrary: t t' q)
  case Nil
  then show ?case by (cases t) auto
next
  case (Cons n p)
  show ?case
  proof (cases q)
    case Nil
    with Cons.prems mkdir_all_result_dir [of t "n # p" t'] show ?thesis
      by (cases t') auto
  next
    case (Cons m q')
    with Cons.prems Cons.IH show ?thesis
      by (cases t) (auto simp: map_of_upd split: option.splits sum.splits)
  qed
qed

lemma mkdir_all_frame:
  "mkdir_all t p = Inr t' \<Longrightarrow> \<not> prefix q p \<Longrightarrow> lookup t' q = lookup t q"
proof (induction p arbitrary: t t' q)
  case Nil
  then show ?case by (cases t) auto
next
  case (Cons n p)
  then obtain m q' where q: "q = m # q'" by (cases q) auto
  show ?case
  proof (cases t)
    case (Dir es)
    show ?thesis
    proof (cases "map_of es n")
      case None
      with Cons.prems Cons.IH [of "Dir []" _ q'] q Dir show ?thesis
        by (cases q') (auto simp: map_of_upd split: option.splits sum.splits)
    next
      case (Some c)
      with Cons.prems Cons.IH [of c _ q'] q Dir show ?thesis
        by (auto simp: map_of_upd split: option.splits sum.splits)
    qed
  qed (use Cons in auto)
qed

lemma mkdir_all_existing: "lookup t p = Some (Dir ds) \<Longrightarrow> mkdir_all t p = Inr t"
proof (induction p arbitrary: t)
  case Nil then show ?case by simp
next
  case (Cons n p)
  then show ?case
    by (cases t) (auto simp: upd_same split: option.splits)
qed

lemma mkdir_all_new_empty:
  "mkdir_all t p = Inr t' \<Longrightarrow> lookup t p = None \<Longrightarrow> lookup t' p = Some (Dir [])"
proof (induction p arbitrary: t t')
  case Nil then show ?case by simp
next
  case (Cons n p)
  show ?case
  proof (cases t)
    case (Dir es)
    show ?thesis
    proof (cases "map_of es n")
      case None
      have "lookup (Dir []) p = None \<or> p = []" by (cases p) auto
      moreover have "p = [] \<Longrightarrow> mkdir_all (Dir []) p = Inr (Dir [])" by simp
      ultimately show ?thesis using None Cons.prems Cons.IH [of "Dir []"] Dir
        by (auto simp: map_of_upd split: option.splits sum.splits)
    next
      case (Some c)
      with Cons.prems Cons.IH [of c] Dir show ?thesis
        by (auto simp: map_of_upd split: option.splits sum.splits)
    qed
  qed (use Cons in auto)
qed

lemma del_lookup_below: "p \<noteq> [] \<Longrightarrow> lookup (del t p) (p @ r) = None"
proof (induction p arbitrary: t)
  case Nil then show ?case by simp
next
  case (Cons n p)
  show ?case
  proof (cases t)
    case (Dir es)
    with Cons show ?thesis
      by (auto simp: del_Dir_Cons map_of_upd map_of_rm split: option.splits)
  qed auto
qed

lemma del_frame:
  "\<not> prefix q p \<Longrightarrow> \<not> prefix p q \<Longrightarrow> lookup (del t p) q = lookup t q"
proof (induction p arbitrary: t q)
  case Nil then show ?case by simp
next
  case (Cons n p)
  then obtain m q' where q: "q = m # q'" by (cases q) auto
  show ?case
  proof (cases t)
    case (Dir es)
    with Cons q show ?thesis
      by (auto simp: del_Dir_Cons map_of_upd map_of_rm split: option.splits)
  qed auto
qed

lemma del_above:
  "strict_prefix q p \<Longrightarrow> lookup t q = Some (Dir es) \<Longrightarrow> \<exists>es'. lookup (del t p) q = Some (Dir es')"
proof (induction p arbitrary: t q es)
  case Nil then show ?case by simp
next
  case (Cons n p)
  show ?case
  proof (cases t)
    case (Dir ds)
    show ?thesis
    proof (cases q)
      case Nil
      with Cons Dir show ?thesis by (auto simp: del_Dir_Cons split: option.splits)
    next
      case (Cons m q')
      with Cons.prems Cons.IH Dir show ?thesis
        by (auto simp: del_Dir_Cons map_of_upd map_of_rm split: option.splits if_splits)
    qed
  qed (use Cons in auto)
qed

subsection \<open>What the replicators keep and where they write\<close>

lemma tkeeps_refl: "tkeeps t t"
  by (auto simp: tkeeps_def)

lemma tkeepsD:
  "tkeeps t t' \<Longrightarrow> lookup t q = Some x \<Longrightarrow>
   \<exists>y. lookup t' q = Some y \<and> (is_Dir x \<longrightarrow> is_Dir y) \<and> (\<not> is_Dir x \<longrightarrow> y = x)"
  unfolding tkeeps_def by blast

lemma tkeeps_trans:
  assumes ab: "tkeeps a b" and bc: "tkeeps b c"
  shows "tkeeps a c"
  unfolding tkeeps_def
proof (intro allI impI)
  fix q x assume l: "lookup a q = Some x"
  from tkeepsD [OF ab l] obtain y where
    y: "lookup b q = Some y" "is_Dir x \<longrightarrow> is_Dir y" "\<not> is_Dir x \<longrightarrow> y = x" by blast
  from tkeepsD [OF bc y(1)] obtain z where
    z: "lookup c q = Some z" "is_Dir y \<longrightarrow> is_Dir z" "\<not> is_Dir y \<longrightarrow> z = y" by blast
  show "\<exists>y. lookup c q = Some y \<and> (is_Dir x \<longrightarrow> is_Dir y) \<and> (\<not> is_Dir x \<longrightarrow> y = x)"
    using y z by auto
qed

lemma keeps_refl: "keeps w w"
  by (simp add: keeps_def tkeeps_refl)

lemma keeps_trans: "keeps a b \<Longrightarrow> keeps b c \<Longrightarrow> keeps a c"
  unfolding keeps_def using tkeeps_trans prefix_order.order_trans by blast

lemma toutside_refl: "toutside d t t"
  by (simp add: toutside_def)

lemma toutside_trans: "toutside d a b \<Longrightarrow> toutside d b c \<Longrightarrow> toutside d a c"
  by (simp add: toutside_def)

lemma outside_refl: "outside d w w"
  by (simp add: outside_def toutside_refl)

lemma outside_trans: "outside d a b \<Longrightarrow> outside d b c \<Longrightarrow> outside d a c"
  unfolding outside_def by (rule toutside_trans)

lemma is_Dir_iff: "is_Dir x \<longleftrightarrow> (\<exists>es. x = Dir es)"
  by (cases x) auto

lemma mkdir_all_prefix_old:
  "mkdir_all t p = Inr t' \<Longrightarrow> prefix q p \<Longrightarrow> lookup t q = Some x \<Longrightarrow> is_Dir x"
proof (induction p arbitrary: t t' q)
  case Nil
  then show ?case by (cases t) auto
next
  case (Cons n p)
  show ?case
  proof (cases q)
    case Nil
    with Cons.prems mkdir_all_result_dir [of t "n # p" t'] show ?thesis by auto
  next
    case (Cons m q')
    with Cons.prems Cons.IH show ?thesis
      by (cases t) (auto split: option.splits sum.splits)
  qed
qed

lemma mkdir_all_tkeeps: "mkdir_all t p = Inr t' \<Longrightarrow> tkeeps t t'"
  unfolding tkeeps_def
proof (intro allI impI)
  fix q x
  assume m: "mkdir_all t p = Inr t'" and l: "lookup t q = Some x"
  show "\<exists>y. lookup t' q = Some y \<and> (is_Dir x \<longrightarrow> is_Dir y) \<and> (\<not> is_Dir x \<longrightarrow> y = x)"
  proof (cases "prefix q p")
    case True
    from mkdir_all_prefix [OF m True] obtain es where "lookup t' q = Some (Dir es)" by blast
    moreover have "is_Dir x" using mkdir_all_prefix_old [OF m True l] .
    ultimately show ?thesis by simp
  next
    case False
    then show ?thesis using mkdir_all_frame [OF m False] l by simp
  qed
qed

lemma lookup_below_None: "lookup t p = None \<Longrightarrow> prefix p q \<Longrightarrow> lookup t q = None"
  by (auto simp: prefix_def lookup_append)

lemma put_fresh_tkeeps:
  assumes p: "put t p v = Inr t'" and n: "lookup t p = None"
  shows "tkeeps t t'"
  unfolding tkeeps_def
proof (intro allI impI)
  fix q x
  assume l: "lookup t q = Some x"
  have npq: "\<not> prefix p q" using lookup_below_None [OF n] l by fastforce
  show "\<exists>y. lookup t' q = Some y \<and> (is_Dir x \<longrightarrow> is_Dir y) \<and> (\<not> is_Dir x \<longrightarrow> y = x)"
  proof (cases "prefix q p")
    case True
    then have "strict_prefix q p" using npq by (auto simp: strict_prefix_def)
    from put_above [OF p this] l show ?thesis by auto
  next
    case False
    then show ?thesis using put_frame [OF p False npq] l by simp
  qed
qed

lemma mkdir_all_toutside: "mkdir_all t (d @ r) = Inr t' \<Longrightarrow> toutside d t t'"
  unfolding toutside_def
proof (intro allI impI)
  fix q assume m: "mkdir_all t (d @ r) = Inr t'" and i: "\<not> prefix q d \<and> \<not> prefix d q"
  have "\<not> prefix q (d @ r)" using i by (auto simp: prefix_append)
  then show "lookup t' q = lookup t q" using mkdir_all_frame [OF m] by blast
qed

lemma put_toutside: "put t (d @ r) v = Inr t' \<Longrightarrow> toutside d t t'"
  unfolding toutside_def
proof (intro allI impI)
  fix q assume m: "put t (d @ r) v = Inr t'" and i: "\<not> prefix q d \<and> \<not> prefix d q"
  have 1: "\<not> prefix q (d @ r)" using i by (auto simp: prefix_append)
  have 2: "\<not> prefix (d @ r) q" using i append_prefixD by blast
  show "lookup t' q = lookup t q" using put_frame [OF m 1 2] .
qed

lemma commit_root: "root (commit t w) = t"
  by (simp add: commit_def)

lemma commit_history: "prefix (history w) (history (commit t w))"
  by (simp add: commit_def)

lemma commit_keeps: "tkeeps (root w) t \<Longrightarrow> keeps w (commit t w)"
  by (simp add: keeps_def commit_root commit_history)

lemma each_invariant:
  assumes step: "\<And>x a r b. f x a = (r, b) \<Longrightarrow> R a b"
    and refl: "\<And>a. R a a" and trans: "\<And>a b c. R a b \<Longrightarrow> R b c \<Longrightarrow> R a c"
  shows "each f xs w = (r, w') \<Longrightarrow> R w w'"
proof (induction xs arbitrary: w)
  case Nil
  then have "w' = w" by simp
  then show ?case using refl by simp
next
  case (Cons x xs)
  obtain r1 w1 where f: "f x w = (r1, w1)" by (cases "f x w")
  have s: "R w w1" using step [OF f] .
  show ?case
  proof (cases r1)
    case None
    with Cons.prems f have "each f xs w1 = (r, w')" by simp
    then have "R w1 w'" by (rule Cons.IH)
    then show ?thesis using s trans by blast
  next
    case (Some e)
    with Cons.prems f have "w' = w1" by simp
    then show ?thesis using s by simp
  qed
qed

lemma os_MkdirAll_keeps: "os_MkdirAll p w = Inr w' \<Longrightarrow> keeps w w'"
  by (auto simp: os_MkdirAll_def commit_keeps mkdir_all_tkeeps split: sum.splits)

lemma os_MkdirAll_outside: "os_MkdirAll (d @ r) w = Inr w' \<Longrightarrow> outside d w w'"
  by (auto simp: os_MkdirAll_def outside_def commit_root mkdir_all_toutside split: sum.splits)

lemma os_Symlink_keeps: "os_Symlink tg p w = Inr w' \<Longrightarrow> keeps w w'"
  by (auto simp: os_Symlink_def commit_keeps put_fresh_tkeeps split: sum.splits if_splits)

lemma os_Symlink_outside: "os_Symlink tg (d @ r) w = Inr w' \<Longrightarrow> outside d w w'"
  by (auto simp: os_Symlink_def outside_def commit_root put_toutside split: sum.splits if_splits)

lemma os_Link_keeps: "os_Link X s p w = Inr w' \<Longrightarrow> keeps w w'"
  by (auto simp: os_Link_def commit_keeps put_fresh_tkeeps
      split: sum.splits if_splits option.splits node.splits)

lemma os_Link_outside: "os_Link X s (d @ r) w = Inr w' \<Longrightarrow> outside d w w'"
  by (auto simp: os_Link_def outside_def commit_root put_toutside
      split: sum.splits if_splits option.splits node.splits)

lemma keeps_inodes: "keeps w w' \<Longrightarrow> keeps w (w'\<lparr>inodes := f\<rparr>)"
  by (simp add: keeps_def)

lemma copyFile_keeps: "copyFile s p w = (r, w') \<Longrightarrow> keeps w w'"
  by (auto simp: copyFile_def keeps_refl keeps_def commit_def put_fresh_tkeeps tkeeps_refl
      split: sum.splits if_splits option.splits node.splits)

lemma copyFile_outside: "copyFile s (d @ r) w = (res, w') \<Longrightarrow> outside d w w'"
  by (auto simp: copyFile_def outside_def toutside_refl commit_def put_toutside
      split: sum.splits if_splits option.splits node.splits)



lemma hardlink_entry_keeps: "hardlink_entry X s d e w = (r, w') \<Longrightarrow> keeps w w'"
  by (auto simp: hardlink_entry_def keeps_refl os_Link_keeps os_Symlink_keeps copyFile_keeps
        os_MkdirAll_keeps
      split: sum.splits if_splits option.splits node.splits)

lemma hardlink_entry_outside: "hardlink_entry X s d e w = (res, w') \<Longrightarrow> outside d w w'"
  by (auto simp: hardlink_entry_def outside_refl os_Link_outside os_Symlink_outside
        copyFile_outside os_MkdirAll_outside
      split: sum.splits if_splits option.splits node.splits)



lemma HardlinkTree_keeps: "HardlinkTree X s d w = (r, w') \<Longrightarrow> keeps w w'"
  unfolding HardlinkTree_def
  by (auto simp: keeps_refl split: option.splits
      elim!: each_invariant [where R = keeps, rotated 3] intro: hardlink_entry_keeps keeps_refl keeps_trans)

lemma HardlinkTree_outside: "HardlinkTree X s d w = (r, w') \<Longrightarrow> outside d w w'"
  unfolding HardlinkTree_def
  by (auto simp: outside_refl split: option.splits
      elim!: each_invariant [where R = "outside d", rotated 3]
      intro: hardlink_entry_outside outside_refl outside_trans)



subsection \<open>The entry directory under lock, move and copy\<close>

lemma lookup_parent_dir: "lookup t (p @ [n]) = Some x \<Longrightarrow> \<exists>es. lookup t p = Some (Dir es)"
proof -
  assume a: "lookup t (p @ [n]) = Some x"
  then obtain c where c: "lookup t p = Some c" "lookup c [n] = Some x"
    by (auto simp: lookup_append split: option.splits)
  then show ?thesis by (cases c) auto
qed

lemma dirExists_iff: "dirExists w p \<longleftrightarrow> (\<exists>es. lookup (root w) p = Some (Dir es))"
  by (auto simp: dirExists_def split: option.splits node.splits)

lemma keeps_dirExists: "keeps w w' \<Longrightarrow> dirExists w p \<Longrightarrow> dirExists w' p"
proof -
  assume k: "keeps w w'" and d: "dirExists w p"
  then obtain es where "lookup (root w) p = Some (Dir es)" by (auto simp: dirExists_iff)
  with k obtain y where "lookup (root w') p = Some y" "is_Dir y"
    unfolding keeps_def using tkeepsD by fastforce
  then show ?thesis by (auto simp: dirExists_iff is_Dir_iff)
qed




lemma Base_Nil_iff: "Base l = [] \<longleftrightarrow> l = []"
  by (simp add: Base_def)












lemma lock_path_split: "lock_path c = butlast (lock_path c) @ [last (lock_path c)]"
  by (simp add: lock_path_def)

lemma commit_same: "commit (root w) w = w"
  by (simp add: commit_def)



subsection \<open>The history of a move into the cache\<close>

lemma lock_path_butlast: "c \<noteq> [] \<Longrightarrow> butlast (lock_path c) = butlast c"
  by (simp add: lock_path_def)

lemma lock_path_length: "c \<noteq> [] \<Longrightarrow> length (lock_path c) = length c"
  by (simp add: lock_path_def)

lemma lock_path_neq: "lock_path c \<noteq> c"
proof (cases "c = []")
  case True then show ?thesis by (simp add: lock_path_def)
next
  case False
  then have "last (lock_path c) = last c @ ''.lock''" by (simp add: lock_path_def)
  then have "last (lock_path c) \<noteq> last c" by simp
  then show ?thesis by auto
qed

lemma prefix_same_length: "prefix a b \<Longrightarrow> length a = length b \<Longrightarrow> a = b"
  by (auto simp: prefix_def)

lemma open_create_root:
  "open_create p w = Inr w' \<Longrightarrow>
   root w' = root w \<or> (lookup (root w) p = None \<and> (\<exists>v. put (root w) p v = Inr (root w')))"
  unfolding open_create_def
  by (cases "lookup (root w) p")
     (auto simp: commit_def split: node.splits sum.splits if_splits)

lemma open_create_frame:
  assumes o: "open_create p w = Inr w'" and 1: "\<not> prefix q p" and 2: "\<not> prefix p q"
  shows "lookup (root w') q = lookup (root w) q"
proof -
  from open_create_root [OF o] show ?thesis
  proof
    assume "root w' = root w" then show ?thesis by simp
  next
    assume "lookup (root w) p = None \<and> (\<exists>v. put (root w) p v = Inr (root w'))"
    then obtain v where "put (root w) p v = Inr (root w')" by blast
    from put_frame [OF this 1 2] show ?thesis .
  qed
qed

lemma open_create_kind:
  "open_create p w = Inr w' \<Longrightarrow> lookup (root w) p = None \<or> (\<exists>i. lookup (root w) p = Some (File i))"
  by (auto simp: open_create_def split: option.splits node.splits)

lemma os_MkdirAll_frame:
  "os_MkdirAll p w = Inr w' \<Longrightarrow> \<not> prefix q p \<Longrightarrow> lookup (root w') q = lookup (root w) q"
  using mkdir_all_frame
  by (auto simp: os_MkdirAll_def commit_root split: sum.splits)

lemma os_MkdirAll_new:
  assumes m: "os_MkdirAll p w = Inr w'" and n: "lookup (root w) p = None"
  shows "lookup (root w') p = Some (Dir []) \<and> history w' = history w @ [root w']"
proof -
  from m obtain t where t: "mkdir_all (root w) p = Inr t" and w': "w' = commit t w"
    by (auto simp: os_MkdirAll_def split: sum.splits)
  have l: "lookup t p = Some (Dir [])" using mkdir_all_new_empty [OF t n] .
  with n have "t \<noteq> root w" by auto
  with w' l show ?thesis by (simp add: commit_def)
qed

lemma acquireCacheLock_steps:
  assumes a: "acquireCacheLock X c w = (Inr h, w0)"
  shows "\<exists>wa. os_MkdirAll (butlast (lock_path c)) w = Inr wa \<and> open_create (lock_path c) wa = Inr w0"
  using a by (auto simp: acquireCacheLock_def split: sum.splits if_splits)

lemma acquireCacheLock_frame:
  assumes a: "acquireCacheLock X c w = (Inr h, w0)" and c: "c \<noteq> []"
    and 1: "\<not> prefix q (butlast c)" and 2: "q \<noteq> lock_path c" and 3: "\<not> prefix (lock_path c) q"
  shows "lookup (root w0) q = lookup (root w) q"
proof -
  from acquireCacheLock_steps [OF a] obtain wa where
    m: "os_MkdirAll (butlast (lock_path c)) w = Inr wa" and o: "open_create (lock_path c) wa = Inr w0"
    by blast
  have f1: "lookup (root wa) q = lookup (root w) q"
    using os_MkdirAll_frame [OF m] 1 c by (simp add: lock_path_butlast)
  have E: "lock_path c = butlast c @ [last c @ ''.lock'']"
    using c by (simp add: lock_path_def)
  have "\<not> prefix q (lock_path c)"
    using 1 2 by (simp add: E)
  from open_create_frame [OF o this 3] f1 show ?thesis by simp
qed

lemma os_Rename_EXDEV: "os_Rename X s d w = Inl EXDEV \<Longrightarrow> device X s \<noteq> device X d"
proof -
  have p: "put t q v \<noteq> Inl EXDEV" for t q v
  proof (induction t q v rule: put.induct)
  qed (auto split: option.splits sum.splits)
  assume "os_Rename X s d w = Inl EXDEV"
  then show ?thesis using p unfolding os_Rename_def
    by (auto split: option.splits if_splits node.splits sum.splits)
qed

lemma take_eq_prefix: "take (length s) d = s \<longleftrightarrow> prefix s d"
proof
  assume "take (length s) d = s"
  then have "d = s @ drop (length s) d" by (metis append_take_drop_id)
  then show "prefix s d" by (rule prefixI)
next
  assume "prefix s d" then show "take (length s) d = s" by (auto simp: prefix_def)
qed

lemma not_prefix_butlast: "c \<noteq> [] \<Longrightarrow> \<not> prefix c (butlast c)"
proof
  assume c: "c \<noteq> []" and p: "prefix c (butlast c)"
  have "length (butlast c) = length c - 1" by (rule length_butlast)
  with prefix_length_le [OF p] have "length c \<le> length c - 1" by (simp only:)
  then have "length c = 0" by arith
  with c show False by simp
qed

lemma os_Rename_moved:
  assumes r: "os_Rename X s d w = Inr w'" and n: "s \<noteq> d"
  shows "\<not> prefix s d \<and> \<not> prefix d s \<and>
         (\<exists>v. lookup (root w) s = Some v \<and> put (del (root w) s) d v = Inr (root w'))
         \<and> w' = commit (root w') w"
  using r n unfolding os_Rename_def take_eq_prefix
  by (auto simp: commit_root split: option.splits if_splits node.splits sum.splits)

lemma commit_changed: "t \<noteq> root w \<Longrightarrow> history (commit t w) = history w @ [t]"
  by (simp add: commit_def)

lemma moveToCache_entry_before_child:
  assumes m: "moveToCache X l c hb w = (None, w')"
    and free: "\<not> lock_held X (lock_path c)"
    and absent: "lookup (root w) c = None"
    and dl: "dirExists w l"
    and dev: "device X l = device X (c @ Base l)"
  shows "\<exists>pre t1 t2 post. history w' = pre @ [t1, t2] @ post \<and>
           lookup t1 c = Some (Dir []) \<and> lookup t1 (c @ Base l) = None \<and>
           lookup t2 (c @ Base l) = lookup (root w) l \<and>
           lookup (root w') (c @ Base l) = lookup (root w) l"
proof -
  let ?T = "c @ Base l"
  have c: "c \<noteq> []" using absent by auto
  obtain es where le: "lookup (root w) l = Some (Dir es)" using dl by (auto simp: dirExists_iff)
  have lT: "l \<noteq> ?T"
  proof
    assume e: "l = ?T"
    have "prefix c l" by (rule prefixI [OF e])
    from lookup_below_None [OF absent this] le show False by simp
  qed
  \<comment> \<open>the lock is taken\<close>
  obtain r w0 where a: "acquireCacheLock X c w = (r, w0)" by (cases "acquireCacheLock X c w")
  from a free have "r \<noteq> Inr None"
    by (auto simp: acquireCacheLock_def split: sum.splits if_splits)
  with m a obtain lk where r: "r = Inr (Some lk)" by (cases r) (auto simp: moveToCache_def)
  with m a have ml: "move_locked X l c hb w0 = (None, w')" by (simp add: moveToCache_def)
  have a': "acquireCacheLock X c w = (Inr (Some lk), w0)" using a r by simp
  have lpc: "\<not> prefix (lock_path c) c"
    using prefix_same_length [of "lock_path c" c] lock_path_length [OF c] lock_path_neq by auto
  have c0: "lookup (root w0) c = None"
    using acquireCacheLock_frame [OF a' c not_prefix_butlast [OF c] _ lpc] absent
      lock_path_neq [of c] by auto
  \<comment> \<open>the entry directory is created, empty\<close>
  have T0: "lookup (root w0) ?T = None"
    using lookup_below_None [OF c0] by (simp add: prefixI)
  then have nd: "\<not> dirExists w0 ?T" by (simp add: dirExists_def)
  from ml nd obtain w1 where mk: "os_MkdirAll c w0 = Inr w1"
    by (auto simp: move_locked_def split: sum.splits)
  from os_MkdirAll_new [OF mk c0]
  have c1: "lookup (root w1) c = Some (Dir [])" and h1: "history w1 = history w0 @ [root w1]"
    by simp_all
  \<comment> \<open>the rename succeeds\<close>
  obtain w2 where rn: "os_Rename X l ?T w1 = Inr w2"
  proof (cases "os_Rename X l ?T w1")
    case (Inl e)
    have "e \<noteq> EXDEV" using os_Rename_EXDEV [of X l ?T w1] Inl dev by auto
    with ml nd mk Inl have False by (auto simp: move_locked_def isCrossDevice_def)
    then show ?thesis ..
  next
    case (Inr w2) then show ?thesis using that by blast
  qed
  from os_Rename_moved [OF rn lT] obtain v where
    nlT: "\<not> prefix l ?T" and nTl: "\<not> prefix ?T l" and
    v: "lookup (root w1) l = Some v" and pt: "put (del (root w1) l) ?T v = Inr (root w2)" and
    w2: "w2 = commit (root w2) w1"
    by blast
  have l: "l \<noteq> []" using nlT by auto
  have T1: "lookup (root w1) ?T = None"
    using c1 l by (simp add: lookup_append Base_def)
  have T2: "lookup (root w2) ?T = Some v" using put_lookup_same [OF pt] .
  have "root w2 \<noteq> root w1" using T1 T2 by auto
  with w2 have h2: "history w2 = history w1 @ [root w2]"
    using commit_changed [of "root w2" w1] by simp
  \<comment> \<open>the tree that was moved is the tree of the workspace\<close>
  have nlc: "\<not> prefix l c" using nlT by (auto simp: prefix_def)
  have nlb: "\<not> prefix l (butlast c)"
  proof
    assume "prefix l (butlast c)"
    then have "prefix l c" using prefixeq_butlast [of c] by (rule prefix_order.order_trans)
    with nlc show False ..
  qed
  have v1: "lookup (root w1) l = lookup (root w0) l"
    using os_MkdirAll_frame [OF mk nlc] .
  from acquireCacheLock_steps [OF a'] obtain wa where
    ma: "os_MkdirAll (butlast (lock_path c)) w = Inr wa" and
    oc: "open_create (lock_path c) wa = Inr w0" by blast
  have la: "lookup (root wa) l = Some (Dir es)"
    using os_MkdirAll_frame [OF ma, of l] nlb c le by (simp add: lock_path_butlast)
  have nll: "l \<noteq> lock_path c \<and> \<not> prefix (lock_path c) l"
  proof -
    have k: "lookup (root wa) (lock_path c) = None \<or> (\<exists>i. lookup (root wa) (lock_path c) = Some (File i))"
      using open_create_kind [OF oc] .
    have "\<not> prefix (lock_path c) l"
    proof
      assume "prefix (lock_path c) l"
      then obtain r where lr: "l = lock_path c @ r" by (auto simp: prefix_def)
      from k show False
      proof
        assume "lookup (root wa) (lock_path c) = None"
        with la lr show False by (simp add: lookup_append)
      next
        assume "\<exists>i. lookup (root wa) (lock_path c) = Some (File i)"
        then obtain i where "lookup (root wa) (lock_path c) = Some (File i)" by blast
        with la lr show False by (cases r) (simp_all add: lookup_append)
      qed
    qed
    then show ?thesis by auto
  qed
  have v0: "lookup (root w0) l = lookup (root w) l"
    using acquireCacheLock_frame [OF a' c nlb] nll by blast
  have vv: "Some v = lookup (root w) l" using v v1 v0 by simp
  \<comment> \<open>what follows only adds to the history\<close>
  have fin: "prefix (history w2) (history w') \<and> lookup (root w') ?T = lookup (root w2) ?T"
  proof (cases hb)
    case False
    with ml nd mk rn have "w' = w2" by (simp add: move_locked_def)
    then show ?thesis by simp
  next
    case True
    obtain r3 w3 where h: "HardlinkTree X ?T l w2 = (r3, w3)" by (cases "HardlinkTree X ?T l w2")
    with ml nd mk rn True have "w' = w3" by (cases r3) (auto simp: move_locked_def split: sum.splits)
    with HardlinkTree_keeps [OF h] HardlinkTree_outside [OF h] nlT nTl show ?thesis
      by (simp add: keeps_def outside_def toutside_def)
  qed
  then obtain post where "history w' = history w2 @ post" by (auto simp: prefix_def)
  with h1 h2 have "history w' = history w0 @ [root w1, root w2] @ post" by simp
  moreover have "lookup (root w') ?T = lookup (root w) l" using fin T2 vv by simp
  ultimately show ?thesis using c1 T1 T2 vv
    by (intro exI [of _ "history w0"] exI [of _ "root w1"] exI [of _ "root w2"] exI [of _ post])
       simp
qed


lemma os_Rename_history: "os_Rename X s d w = Inr w' \<Longrightarrow> prefix (history w) (history w')"
  unfolding os_Rename_def
  by (auto simp: commit_history split: option.splits if_splits node.splits sum.splits)

lemma store_path_history:
  "store_path X c e w = (r, w') \<Longrightarrow> prefix (history w) (history w')"
proof -
  assume s: "store_path X c e w = (r, w')"
  show ?thesis
  proof (cases "dirExists w e")
    case False with s show ?thesis by (simp add: store_path_def)
  next
    case True
    show ?thesis
    proof (cases "os_Rename X e (c @ Base e) w")
      case (Inl er) with s True show ?thesis by (simp add: store_path_def)
    next
      case (Inr w1)
      obtain r2 w2 where h: "HardlinkTree X (c @ Base e) e w1 = (r2, w2)"
        by (cases "HardlinkTree X (c @ Base e) e w1")
      with s True Inr have "w' = w2" by (cases r2) (auto simp: store_path_def)
      with HardlinkTree_keeps [OF h] os_Rename_history [OF Inr] show ?thesis
        by (auto simp: keeps_def intro: prefix_order.order_trans)
    qed
  qed
qed

lemma each_store_path_history:
  "each (store_path X c) es w = (r, w') \<Longrightarrow> prefix (history w) (history w')"
  by (rule each_invariant [where R = "\<lambda>a b. prefix (history a) (history b)" and f = "store_path X c"])
     (auto intro: store_path_history prefix_order.order_trans)

lemma StoreToCache_entry_before_child:
  assumes m: "StoreToCache X entry w = (None, w')"
    and absent: "lookup (root w) (CachePath entry) = None"
    and ps: "EnvPaths entry = l # rest"
    and dl: "dirExists w l"
  shows "\<exists>pre t1 t2 post. history w' = pre @ [t1, t2] @ post \<and>
           lookup t1 (CachePath entry) = Some (Dir []) \<and>
           lookup t1 (CachePath entry @ Base l) = None \<and>
           lookup t2 (CachePath entry @ Base l) = lookup (root w) l \<and>
           (rest = [] \<longrightarrow> lookup (root w') (CachePath entry @ Base l) = lookup (root w) l)"
proof -
  let ?c = "CachePath entry"
  let ?T = "?c @ Base l"
  obtain es where le: "lookup (root w) l = Some (Dir es)" using dl by (auto simp: dirExists_iff)
  have lT: "l \<noteq> ?T"
  proof
    assume e: "l = ?T"
    have "prefix ?c l" by (rule prefixI [OF e])
    from lookup_below_None [OF absent this] le show False by simp
  qed
  from m obtain w1 where mk: "os_MkdirAll ?c w = Inr w1"
    and e: "each (store_path X ?c) (l # rest) w1 = (None, w')"
    using ps by (auto simp: StoreToCache_def split: sum.splits)
  from os_MkdirAll_new [OF mk absent]
  have c1: "lookup (root w1) ?c = Some (Dir [])" and h1: "history w1 = history w @ [root w1]"
    by simp_all
  have d1: "dirExists w1 l" using keeps_dirExists [OF os_MkdirAll_keeps [OF mk] dl] .
  obtain r2 w3 where sp: "store_path X ?c l w1 = (r2, w3)" by (cases "store_path X ?c l w1")
  with e have r2: "r2 = None" and e': "each (store_path X ?c) rest w3 = (None, w')"
    by (cases r2; simp)+
  from sp r2 d1 obtain w2 where rn: "os_Rename X l ?T w1 = Inr w2"
    and hl: "fst (HardlinkTree X ?T l w2) = None" and w3: "w3 = snd (HardlinkTree X ?T l w2)"
    by (auto simp: store_path_def split: sum.splits option.splits prod.splits)
  from os_Rename_moved [OF rn lT] obtain v where
    nlT: "\<not> prefix l ?T" and nTl: "\<not> prefix ?T l" and
    v: "lookup (root w1) l = Some v" and pt: "put (del (root w1) l) ?T v = Inr (root w2)" and
    w2: "w2 = commit (root w2) w1"
    by blast
  have l: "l \<noteq> []" using nlT by auto
  have T1: "lookup (root w1) ?T = None"
    using c1 l by (simp add: lookup_append Base_def)
  have T2: "lookup (root w2) ?T = Some v" using put_lookup_same [OF pt] .
  have "root w2 \<noteq> root w1" using T1 T2 by auto
  with w2 have h2: "history w2 = history w1 @ [root w2]"
    using commit_changed [of "root w2" w1] by simp
  have nlc: "\<not> prefix l ?c" using nlT by (auto simp: prefix_def)
  have vv: "Some v = lookup (root w) l"
    using os_MkdirAll_frame [OF mk nlc] v by simp
  have "prefix (history w2) (history w3)"
    using HardlinkTree_keeps [of X ?T l w2 "fst (HardlinkTree X ?T l w2)" w3] w3
    by (simp add: keeps_def)
  moreover have "prefix (history w3) (history w')" using each_store_path_history [OF e'] .
  ultimately have "prefix (history w2) (history w')" by (rule prefix_order.order_trans)
  then obtain post where "history w' = history w2 @ post" by (auto simp: prefix_def)
  with h1 h2 have "history w' = history w @ [root w1, root w2] @ post" by simp
  moreover have "rest = [] \<longrightarrow> lookup (root w') ?T = lookup (root w) l"
  proof
    assume "rest = []"
    with e' have "w' = w3" by simp
    moreover have "outside l w2 w3"
      using HardlinkTree_outside [of X ?T l w2 "fst (HardlinkTree X ?T l w2)" w3] w3 by simp
    ultimately show "lookup (root w') ?T = lookup (root w) l"
      using nlT nTl T2 vv by (simp add: outside_def toutside_def)
  qed
  ultimately show ?thesis using c1 T1 T2 vv
    by (intro exI [of _ "history w"] exI [of _ "root w1"] exI [of _ "root w2"] exI [of _ post])
       simp
qed

subsection \<open>New files and links; the walk\<close>

lemma adds_refl: "adds S w w"
  by (simp add: adds_def)

lemma adds_trans: "adds S a b \<Longrightarrow> adds S b c \<Longrightarrow> adds S a c"
  unfolding adds_def by blast

lemma adds_mono: "adds S a b \<Longrightarrow> S \<subseteq> S' \<Longrightarrow> adds S' a b"
  unfolding adds_def by blast

lemma each_invariant_mem:
  assumes step: "\<And>x a r b. x \<in> set xs \<Longrightarrow> f x a = (r, b) \<Longrightarrow> R a b"
    and refl: "\<And>a. R a a" and trans: "\<And>a b c. R a b \<Longrightarrow> R b c \<Longrightarrow> R a c"
  shows "each f xs w = (r, w') \<Longrightarrow> R w w'"
  using step
proof (induction xs arbitrary: w)
  case Nil
  then have "w' = w" by simp
  then show ?case using refl by simp
next
  case (Cons x xs)
  obtain r1 w1 where f: "f x w = (r1, w1)" by (cases "f x w")
  have s: "R w w1" using Cons.prems(2) [of x w r1 w1] f by simp
  show ?case
  proof (cases r1)
    case None
    with Cons.prems f have e: "each f xs w1 = (r, w')" by simp
    have "R w1 w'" by (rule Cons.IH [OF e]) (use Cons.prems(2) in auto)
    then show ?thesis using s trans by blast
  next
    case (Some e)
    with Cons.prems f have "w' = w1" by simp
    then show ?thesis using s by simp
  qed
qed

lemma lookup_leaf_below: "lookup t p = Some x \<Longrightarrow> \<not> is_Dir x \<Longrightarrow> r \<noteq> [] \<Longrightarrow> lookup t (p @ r) = None"
  by (cases x; cases r) (auto simp: lookup_append)

lemma mkdir_all_leaf_old:
  assumes m: "mkdir_all t p = Inr t'" and l: "lookup t' q = Some x" and x: "\<not> is_Dir x"
  shows "lookup t q = Some x"
proof (cases "prefix q p")
  case True
  from mkdir_all_prefix [OF m True] l x show ?thesis by auto
next
  case False
  from mkdir_all_frame [OF m False] l show ?thesis by simp
qed

lemma put_leaf_new:
  assumes p: "put t p v = Inr t'" and v: "\<not> is_Dir v"
    and l: "lookup t' q = Some x" and x: "\<not> is_Dir x"
  shows "q = p \<or> lookup t q = Some x"
proof (cases "prefix q p")
  case True
  show ?thesis
  proof (cases "q = p")
    case False
    with True have "strict_prefix q p" by (simp add: strict_prefix_def)
    from put_above [OF p this] l x show ?thesis by auto
  qed simp
next
  case False
  show ?thesis
  proof (cases "prefix p q")
    case True
    then obtain r where q: "q = p @ r" by (auto simp: prefix_def)
    with False have r: "r \<noteq> []" by auto
    have "lookup t' q = None"
      using lookup_leaf_below [OF put_lookup_same [OF p] v r] q by simp
    with l show ?thesis by simp
  next
    case np: False
    from put_frame [OF p False np] l show ?thesis by simp
  qed
qed


lemma rm_absent: "map_of es n = None \<Longrightarrow> rm n es = es"
  unfolding rm_def by (induction es) (auto split: if_splits)

lemma del_absent: "lookup t p = None \<Longrightarrow> del t p = t"
proof (induction p arbitrary: t)
  case Nil then show ?case by simp
next
  case (Cons n p)
  show ?case
  proof (cases t)
    case (Dir es)
    with Cons show ?thesis
      by (cases p) (auto simp: rm_absent upd_same split: option.splits)
  qed auto
qed

lemma del_leaf_old:
  assumes l: "lookup (del t p) q = Some x" and x: "\<not> is_Dir x"
  shows "lookup t q = Some x"
proof (cases "p = []")
  case True with l show ?thesis by simp
next
  case pn: False
  show ?thesis
  proof (cases "prefix p q")
    case True
    then obtain r where "q = p @ r" by (auto simp: prefix_def)
    with del_lookup_below [OF pn, of t r] l show ?thesis by simp
  next
    case np: False
    show ?thesis
    proof (cases "prefix q p")
      case False
      from del_frame [OF False np] l show ?thesis by simp
    next
      case True
      with np have sp: "strict_prefix q p" by (auto simp: strict_prefix_def)
      show ?thesis
      proof (cases "lookup t q")
        case None
        from lookup_below_None [OF None True] have "del t p = t" by (rule del_absent)
        with l show ?thesis by simp
      next
        case (Some y)
        show ?thesis
        proof (cases y)
          case (Dir es)
          with Some del_above [OF sp] l x show ?thesis by fastforce
        next
          case (File i)
          from sp obtain r where "p = q @ r" "r \<noteq> []" by (auto simp: strict_prefix_def prefix_def)
          with lookup_leaf_below [of t q y r] Some File have "lookup t p = None" by simp
          then have "del t p = t" by (rule del_absent)
          with l show ?thesis by simp
        next
          case (Symlink s)
          from sp obtain r where "p = q @ r" "r \<noteq> []" by (auto simp: strict_prefix_def prefix_def)
          with lookup_leaf_below [of t q y r] Some Symlink have "lookup t p = None" by simp
          then have "del t p = t" by (rule del_absent)
          with l show ?thesis by simp
        qed
      qed
    qed
  qed
qed



lemma walk_entered:
  "(p, x) \<in> set (walk skip rel t) \<Longrightarrow>
     prefix rel p \<and> (\<forall>d. prefix rel d \<and> strict_prefix d p \<longrightarrow> \<not> skip d)"
  and walk_list_entered:
  "(p, x) \<in> set (walk_list skip rel es) \<Longrightarrow> \<not> skip rel \<Longrightarrow>
     strict_prefix rel p \<and> (\<forall>d. prefix rel d \<and> strict_prefix d p \<longrightarrow> \<not> skip d)"
proof (induction skip rel t and skip rel es arbitrary: p x and p x rule: walk_walk_list.induct)
  case (1 skip rel es)
  then show ?case by (auto split: if_splits simp: strict_prefix_def)
next
  case (2 skip rel i) then show ?case by auto
next
  case (3 skip rel t) then show ?case by auto
next
  case (4 skip rel) then show ?case by simp
next
  case (5 skip rel e es)
  from "5.prems"(1) consider (a) "(p, x) \<in> set (walk skip (rel @ [fst e]) (snd e))"
    | (b) "(p, x) \<in> set (walk_list skip rel es)" by auto
  then show ?case
  proof cases
    case a
    from "5.IH"(1) [OF a] have pp: "prefix (rel @ [fst e]) p"
      and q: "\<forall>d. prefix (rel @ [fst e]) d \<and> strict_prefix d p \<longrightarrow> \<not> skip d" by auto
    have sp: "strict_prefix rel p" using pp by (rule prefix_snocD)
    have "\<not> skip d" if d: "prefix rel d" "strict_prefix d p" for d
    proof (cases "d = rel")
      case True with "5.prems"(2) show ?thesis by simp
    next
      case False
      from d(1) obtain d' where d': "d = rel @ d'" by (auto simp: prefix_def)
      from pp obtain p' where p': "p = (rel @ [fst e]) @ p'" by (auto simp: prefix_def)
      from d(2) obtain s where s: "p = d @ s" by (auto simp: strict_prefix_def prefix_def)
      from d' p' s have "d' @ s = fst e # p'" by simp
      moreover have "d' \<noteq> []" using False d' by simp
      ultimately obtain d'' where "d' = fst e # d''" by (cases d') auto
      with d' have "prefix (rel @ [fst e]) d" by simp
      with q d show ?thesis by blast
    qed
    with sp show ?thesis by blast
  next
    case b
    from "5.IH"(2) [OF b "5.prems"(2)] show ?thesis .
  qed
qed

subsection \<open>What a seed may create\<close>

lemma addsI:
  "(\<And>q x. lookup (root w') q = Some x \<Longrightarrow> \<not> is_Dir x \<Longrightarrow> lookup (root w) q = Some x \<or> q \<in> S)
   \<Longrightarrow> adds S w w'"
  unfolding adds_def by blast

lemma addsD:
  "adds S w w' \<Longrightarrow> lookup (root w') q = Some x \<Longrightarrow> \<not> is_Dir x \<Longrightarrow>
   lookup (root w) q = Some x \<or> q \<in> S"
  unfolding adds_def by blast

lemma adds_same_root: "root w' = root w \<Longrightarrow> adds S w w'"
  by (simp add: adds_def)

lemma os_MkdirAll_adds: "os_MkdirAll p w = Inr w' \<Longrightarrow> adds S w w'"
proof -
  assume "os_MkdirAll p w = Inr w'"
  then obtain t where t: "mkdir_all (root w) p = Inr t" and r: "root w' = t"
    by (auto simp: os_MkdirAll_def commit_root split: sum.splits)
  show ?thesis
    by (rule addsI) (use mkdir_all_leaf_old [OF t] r in auto)
qed

lemma put_leaf_adds:
  assumes p: "put (root w) p v = Inr (root w')" and v: "\<not> is_Dir v"
  shows "adds {p} w w'"
  by (rule addsI) (use put_leaf_new [OF p v] in auto)

lemma os_Symlink_adds: "os_Symlink tg p w = Inr w' \<Longrightarrow> adds {p} w w'"
proof -
  assume "os_Symlink tg p w = Inr w'"
  then have "put (root w) p (Symlink tg) = Inr (root w')"
    by (auto simp: os_Symlink_def commit_root split: sum.splits if_splits)
  then show ?thesis by (rule put_leaf_adds) simp
qed

lemma os_Link_adds: "os_Link X s p w = Inr w' \<Longrightarrow> adds {p} w w'"
proof -
  assume "os_Link X s p w = Inr w'"
  then obtain v where "put (root w) p v = Inr (root w')" "\<not> is_Dir v"
    unfolding os_Link_def
    by (cases "lookup (root w) s")
       (auto simp: commit_root split: node.splits sum.splits if_splits option.splits)
  then show ?thesis by (rule put_leaf_adds)
qed

lemma copyFile_root:
  "copyFile s p w = (r, w') \<Longrightarrow>
   root w' = root w \<or> (\<exists>i. put (root w) p (File i) = Inr (root w'))"
  unfolding copyFile_def
  by (cases "lookup (root w) s")
     (auto simp: commit_def split: node.splits sum.splits if_splits option.splits)

lemma copyFile_adds: "copyFile s p w = (r, w') \<Longrightarrow> adds {p} w w'"
proof -
  assume "copyFile s p w = (r, w')"
  from copyFile_root [OF this] show ?thesis
  proof
    assume "root w' = root w" then show ?thesis by (rule adds_same_root)
  next
    assume "\<exists>i. put (root w) p (File i) = Inr (root w')"
    then obtain i where "put (root w) p (File i) = Inr (root w')" by blast
    then show ?thesis by (rule put_leaf_adds) simp
  qed
qed

lemma linkOrCopyFile_adds: "linkOrCopyFile X s p w = (r, w') \<Longrightarrow> adds {p} w w'"
  unfolding linkOrCopyFile_def
  by (cases "lookup (root w) s")
     (auto simp: adds_refl split: node.splits sum.splits if_splits
           dest: os_Symlink_adds os_Link_adds copyFile_adds)

lemma seed_mkdir_adds: "seed_mkdir dst rel w = (r, w') \<Longrightarrow> adds S w w'"
  unfolding seed_mkdir_def
  by (auto simp: adds_refl split: sum.splits dest: os_MkdirAll_adds)

lemma seed_link_adds: "seed_link X src dst rel w = (r, w') \<Longrightarrow> adds {dst @ rel} w w'"
  unfolding seed_link_def linkOrCopyFileWithTimeout_def
  by (auto split: prod.splits option.splits dest: linkOrCopyFile_adds)

lemma seed_files_targets:
  assumes "rel \<in> set (seed_files name t)"
  shows "dst @ rel \<in> seed_targets dst name"
proof -
  from assms obtain x where x: "(rel, x) \<in> set (seed_walk name t)"
    and ns: "\<not> shouldSkipPath (rel_string rel) name"
    by (auto simp: seed_files_def)
  from walk_entered [OF x [unfolded seed_walk_def]]
  have "entered name rel" by (simp add: entered_def)
  with ns show ?thesis by (auto simp: seed_targets_def)
qed

lemma SeedDirectory_adds:
  "SeedDirectory X src dst opts w = (r, w') \<Longrightarrow> adds (seed_targets dst (ArtifactName opts)) w w'"
proof -
  let ?S = "seed_targets dst (ArtifactName opts)"
  assume s: "SeedDirectory X src dst opts w = (r, w')"
  show ?thesis
  proof (cases "lookup (root w) src")
    case None
    with s have "w' = w" by (simp add: SeedDirectory_def)
    then show ?thesis by (simp add: adds_refl)
  next
    case (Some t)
    obtain r1 w1 where m: "each (seed_mkdir dst) (seed_dirs (ArtifactName opts) t) w = (r1, w1)"
      by (cases "each (seed_mkdir dst) (seed_dirs (ArtifactName opts) t) w")
    have a1: "adds ?S w w1"
      by (rule each_invariant [where f = "seed_mkdir dst" and R = "adds ?S", OF _ _ _ m])
         (auto intro: seed_mkdir_adds adds_refl adds_trans)
    show ?thesis
    proof (cases r1)
      case (Some e)
      with s m \<open>lookup (root w) src = Some t\<close> have "w' = w1" by (simp add: SeedDirectory_def)
      with a1 show ?thesis by simp
    next
      case None
      with s m \<open>lookup (root w) src = Some t\<close>
      have e: "each (seed_link X src dst) (seed_files (ArtifactName opts) t) w1 = (r, w')"
        by (simp add: SeedDirectory_def)
      have "adds ?S w1 w'"
      proof (rule each_invariant_mem [where f = "seed_link X src dst" and R = "adds ?S", OF _ _ _ e])
        fix x a r b
        assume "x \<in> set (seed_files (ArtifactName opts) t)" and "seed_link X src dst x a = (r, b)"
        then show "adds ?S a b"
          using seed_link_adds seed_files_targets adds_mono by (metis empty_subsetI insert_subset)
      qed (auto intro: adds_refl adds_trans)
      with a1 show ?thesis by (rule adds_trans)
    qed
  qed
qed

lemma os_RemoveAll_adds: "adds S w (os_RemoveAll p w)"
proof (rule addsI)
  fix q x
  assume "lookup (root (os_RemoveAll p w)) q = Some x" and x: "\<not> is_Dir x"
  then have "lookup (del (root w) p) q = Some x" by (simp add: os_RemoveAll_def commit_root)
  from del_leaf_old [OF this x] show "lookup (root w) q = Some x \<or> q \<in> S" ..
qed

lemma seedToCache_adds:
  "seedToCache X src c name lg w = (r, w') \<Longrightarrow> adds (seed_targets (c @ Base src) name) w w'"
proof -
  let ?S = "seed_targets (c @ Base src) name"
  let ?o = "\<lparr> ArtifactName = name, Logger = lg, NumWorkers = 0, OperationName = [] \<rparr>"
  assume s: "seedToCache X src c name lg w = (r, w')"
  show ?thesis
  proof (cases "os_MkdirAll c w")
    case (Inl e)
    with s have "w' = w" by (simp add: seedToCache_def)
    then show ?thesis by (simp add: adds_refl)
  next
    case (Inr w1)
    have a1: "adds ?S w w1" using os_MkdirAll_adds [OF Inr] .
    show ?thesis
    proof (cases "dirExists w1 (c @ Base src)")
      case True
      with s Inr have "w' = w1" by (simp add: seedToCache_def)
      with a1 show ?thesis by simp
    next
      case False
      obtain r2 w2 where sd: "SeedDirectory X src (c @ Base src) ?o w1 = (r2, w2)"
        by (cases "SeedDirectory X src (c @ Base src) ?o w1")
      have a2: "adds ?S w1 w2" using SeedDirectory_adds [OF sd] by simp
      have "w' = w2 \<or> w' = os_RemoveAll (c @ Base src) w2"
        using s Inr False sd by (cases r2) (auto simp: seedToCache_def)
      then have "adds ?S w2 w'" using os_RemoveAll_adds adds_refl by auto
      with a1 a2 show ?thesis using adds_trans by blast
    qed
  qed
qed

lemma seed_path_adds:
  "seed_path X rootPath c name lg p w = (r, w') \<Longrightarrow>
   adds (seed_targets (c @ Base (components (Join rootPath p))) name) w w'"
  unfolding seed_path_def
  by (auto simp: adds_refl split: if_splits prod.splits option.splits dest: seedToCache_adds)

lemma each_seed_path_adds:
  assumes e: "each (seed_path X rootPath c name lg) ps w = (r, w')"
  shows "adds (\<Union>p \<in> set ps. seed_targets (c @ Base (components (Join rootPath p))) name) w w'"
proof (rule each_invariant_mem [where f = "seed_path X rootPath c name lg", OF _ _ _ e])
  fix x a r b
  assume x: "x \<in> set ps" and "seed_path X rootPath c name lg x a = (r, b)"
  then have "adds (seed_targets (c @ Base (components (Join rootPath x))) name) a b"
    by (rule_tac seed_path_adds)
  then show "adds (\<Union>p \<in> set ps. seed_targets (c @ Base (components (Join rootPath p))) name) a b"
    by (rule adds_mono) (use x in auto)
qed (auto intro: adds_refl adds_trans)

lemma seedArtifactFromRoot_adds:
  assumes s: "seedArtifactFromRoot X cm a rootPath envPath lg w = (res, w')"
  shows "w' = w \<or> (\<exists>key. ComputeCacheKey (key_env_of X w) a envPath = Inr key \<and>
     adds (\<Union>p \<in> set (Paths a). seed_targets
        (components (GetArtifactCachePath X cm rootPath (Name a) key)
           @ Base (components (Join rootPath p))) (Name a)) w w')"
proof (cases "ComputeCacheKey (key_env_of X w) a envPath")
  case (Inl e)
  with s show ?thesis by (auto simp: seedArtifactFromRoot_def split: if_splits)
next
  case (Inr key)
  show ?thesis
  proof (cases "w' = w")
    case False
    with s Inr have "each (seed_path X rootPath
        (components (GetArtifactCachePath X cm rootPath (Name a) key)) (Name a) lg) (Paths a) w
        = (res, w')"
      by (auto simp: seedArtifactFromRoot_def split: if_splits sum.splits)
    from each_seed_path_adds [OF this] Inr show ?thesis by blast
  qed simp
qed

subsection \<open>What a successful seed leaves at the destination\<close>











lemma seed_mkdir_keeps: "seed_mkdir dst rel w = (r, w') \<Longrightarrow> keeps w w'"
  unfolding seed_mkdir_def
  by (auto simp: keeps_refl split: sum.splits dest: os_MkdirAll_keeps)






























subsection \<open>The advisory lock\<close>

text \<open>
  C9. When the lock file of a cache entry exists and another process holds the lock on
  it, \<open>acquireCacheLock\<close> returns no handle and no error, and \<open>moveToCache\<close> returns
  without an error and leaves the state (file system, inode table and history) as it
  was.
\<close>

theorem C9_lock_held_elsewhere_is_silent_noop:
  assumes f: "lookup (root w) (lock_path cachePath) = Some (File i)"
    and h: "lock_held X (lock_path cachePath)"
  shows "acquireCacheLock X cachePath w = (Inr None, w) \<and>
         moveToCache X localPath cachePath hardlinkBack w = (None, w)"
proof -
  from f lock_path_split [of cachePath]
  have "lookup (root w) (butlast (lock_path cachePath) @ [last (lock_path cachePath)]) = Some (File i)"
    by simp
  then obtain es where "lookup (root w) (butlast (lock_path cachePath)) = Some (Dir es)"
    using lookup_parent_dir by blast
  then have m: "os_MkdirAll (butlast (lock_path cachePath)) w = Inr w"
    by (simp add: os_MkdirAll_def mkdir_all_existing commit_same)
  have o: "open_create (lock_path cachePath) w = Inr w"
    using f by (simp add: open_create_def)
  have a: "acquireCacheLock X cachePath w = (Inr None, w)"
    using m o h by (simp add: acquireCacheLock_def)
  then show ?thesis by (simp add: moveToCache_def)
qed

text \<open>C9 on the machine where the lock of \<open>/cache/k1\<close> is held by another process.\<close>

theorem C9_lock_held_elsewhere_is_silent_noop_witness:
  "lookup (root world_locked) (lock_path [''cache'', ''k1'']) = Some (File 9) \<and>
   lock_held env_locked (lock_path [''cache'', ''k1'']) \<and>
   dirExists world_locked [''p'', ''target''] \<and>
   acquireCacheLock env_locked [''cache'', ''k1''] world_locked = (Inr None, world_locked) \<and>
   moveToCache env_locked [''p'', ''target''] [''cache'', ''k1''] True world_locked
     = (None, world_locked)"
proof -
  have f: "lookup (root world_locked) (lock_path [''cache'', ''k1'']) = Some (File 9)"
    by code_simp
  have h: "lock_held env_locked (lock_path [''cache'', ''k1''])"
    by code_simp
  have d: "dirExists world_locked [''p'', ''target'']"
    by code_simp
  show ?thesis
    using f h d C9_lock_held_elsewhere_is_silent_noop [OF f h, of "[''p'', ''target'']" True]
    by simp
qed


subsection \<open>The cross-device path of sync\<close>





subsection \<open>Cleanup after a failed seed\<close>

text \<open>
  C7 (the code at a failing input). The project root \<open>/p\<close> and the workspace \<open>/p/w1\<close>
  have the same fingerprint and no cache entry exists, so \<open>seedArtifactFromRoot\<close> seeds
  \<open>/p/target\<close> into the cache. Linking \<open>good.rlib\<close> fails, the call returns the error
  and removes the partial \<open>target\<close> inside the entry; the entry directory itself stays
  behind, empty, and the hit check of \<open>PrepareArtifactCache\<close>, a miss before the call,
  is a hit after it.
\<close>

theorem C7_failed_seed_leaves_entry_directory:
  "\<not> Hit (projr (prepare_entry env_eperm cm_cache ''/p'' ''/p/w1'' world_cargo art_lock_only)) \<and>
   fst (seedArtifactFromRoot env_eperm cm_cache art_lock_only ''/p'' ''/p/w1'' False world_cargo)
     = Some (Wrap ''failed to seed from root''
              (Wrap ''failed to link good.rlib'' (OsError EPERM))) \<and>
   lookup (root (snd (seedArtifactFromRoot env_eperm cm_cache art_lock_only ''/p'' ''/p/w1'' False
                        world_cargo)))
     (CachePath (projr (prepare_entry env_eperm cm_cache ''/p'' ''/p/w1'' world_cargo art_lock_only)))
     = Some (Dir []) \<and>
   Hit (projr (prepare_entry env_eperm cm_cache ''/p'' ''/p/w1''
      (snd (seedArtifactFromRoot env_eperm cm_cache art_lock_only ''/p'' ''/p/w1'' False world_cargo))
      art_lock_only))"
  by code_simp


subsection \<open>Sync twice\<close>





subsection \<open>When the entry directory becomes visible\<close>

text \<open>
  C6 (as stated, refuted). In a sync of \<open>/p/target\<close> into the new entry \<open>/cache/k1\<close> the
  second state of the file system (after the lock file, before the rename) has the
  entry directory on disk and empty; the same holds for the first state of a store.
  Both operations succeed and end with the entry populated.
\<close>

theorem C6_entry_visible_while_empty_counterexample:
  "fst (moveToCache env_plain [''p'', ''target''] [''cache'', ''k1''] True world_cargo) = None \<and>
   lookup (history (snd (moveToCache env_plain [''p'', ''target''] [''cache'', ''k1''] True
                          world_cargo)) ! 1) [''cache'', ''k1''] = Some (Dir []) \<and>
   lookup (root (snd (moveToCache env_plain [''p'', ''target''] [''cache'', ''k1''] True world_cargo)))
      [''cache'', ''k1'', ''target'', ''good.rlib''] = Some (File 3) \<and>
   fst (StoreToCache env_plain entry_k1 world_cargo) = None \<and>
   lookup (history (snd (StoreToCache env_plain entry_k1 world_cargo)) ! 0) [''cache'', ''k1'']
      = Some (Dir []) \<and>
   lookup (root (snd (StoreToCache env_plain entry_k1 world_cargo)))
      [''cache'', ''k1'', ''target'', ''good.rlib''] = Some (File 3)"
  by code_simp

text \<open>
  C6 (amended). When a sync step (the lock free, the workspace path a directory, one
  device) or a store succeeds on an entry that did not exist, the file system went
  through a state in which the entry directory exists and is empty, immediately
  followed by a state in which the entry's child named after the workspace path is
  exactly the tree that was at the workspace path: the entry directory is visible
  before its content, and each child arrives complete, by one rename.
\<close>

theorem C6_entry_directory_precedes_its_content:
  "(moveToCache X l c hb w = (None, w') \<and> \<not> lock_held X (lock_path c) \<and>
      lookup (root w) c = None \<and> dirExists w l \<and> device X l = device X (c @ Base l) \<longrightarrow>
      (\<exists>pre t1 t2 post. history w' = pre @ [t1, t2] @ post \<and>
           lookup t1 c = Some (Dir []) \<and> lookup t1 (c @ Base l) = None \<and>
           lookup t2 (c @ Base l) = lookup (root w) l)) \<and>
   (StoreToCache X entry w = (None, w'') \<and> lookup (root w) (CachePath entry) = None \<and>
      EnvPaths entry = e # rest \<and> dirExists w e \<longrightarrow>
      (\<exists>pre t1 t2 post. history w'' = pre @ [t1, t2] @ post \<and>
           lookup t1 (CachePath entry) = Some (Dir []) \<and>
           lookup t1 (CachePath entry @ Base e) = None \<and>
           lookup t2 (CachePath entry @ Base e) = lookup (root w) e))"
  using moveToCache_entry_before_child [of X l c hb w w']
    StoreToCache_entry_before_child [of X entry w w'' e rest]
  by blast

text \<open>The amended C6 for the sync and the store of \<open>/p/target\<close> into \<open>/cache/k1\<close>.\<close>

theorem C6_entry_directory_precedes_its_content_witness:
  "fst (moveToCache env_plain [''p'', ''target''] [''cache'', ''k1''] True world_cargo) = None \<and>
   lookup (root world_cargo) [''cache'', ''k1''] = None \<and>
   dirExists world_cargo [''p'', ''target''] \<and>
   (\<exists>pre t1 t2 post.
      history (snd (moveToCache env_plain [''p'', ''target''] [''cache'', ''k1''] True world_cargo))
        = pre @ [t1, t2] @ post \<and>
      lookup t1 [''cache'', ''k1''] = Some (Dir []) \<and>
      lookup t1 ([''cache'', ''k1''] @ Base [''p'', ''target'']) = None \<and>
      lookup t2 ([''cache'', ''k1''] @ Base [''p'', ''target''])
        = lookup (root world_cargo) [''p'', ''target'']) \<and>
   fst (StoreToCache env_plain entry_k1 world_cargo) = None \<and>
   (\<exists>pre t1 t2 post.
      history (snd (StoreToCache env_plain entry_k1 world_cargo)) = pre @ [t1, t2] @ post \<and>
      lookup t1 (CachePath entry_k1) = Some (Dir []) \<and>
      lookup t1 (CachePath entry_k1 @ Base [''p'', ''target'']) = None \<and>
      lookup t2 (CachePath entry_k1 @ Base [''p'', ''target''])
        = lookup (root world_cargo) [''p'', ''target''])"
proof -
  let ?m = "moveToCache env_plain [''p'', ''target''] [''cache'', ''k1''] True world_cargo"
  let ?s = "StoreToCache env_plain entry_k1 world_cargo"
  have f: "fst ?m = None" by code_simp
  then have m: "?m = (None, snd ?m)" by (metis prod.collapse)
  have g: "fst ?s = None" by code_simp
  then have s: "?s = (None, snd ?s)" by (metis prod.collapse)
  have free: "\<not> lock_held env_plain (lock_path [''cache'', ''k1''])"
    by (simp add: env_plain_def)
  have absent: "lookup (root world_cargo) [''cache'', ''k1''] = None" by code_simp
  have absent': "lookup (root world_cargo) (CachePath entry_k1) = None" by code_simp
  have dl: "dirExists world_cargo [''p'', ''target'']" by code_simp
  have dev: "device env_plain [''p'', ''target'']
               = device env_plain ([''cache'', ''k1''] @ Base [''p'', ''target''])"
    by (simp add: env_plain_def)
  have ps: "EnvPaths entry_k1 = [''p'', ''target''] # []" by (simp add: entry_k1_def)
  note T = C6_entry_directory_precedes_its_content [of env_plain "[''p'', ''target'']"
      "[''cache'', ''k1'']" True world_cargo "snd ?m" entry_k1 "snd ?s" "[''p'', ''target'']" "[]"]
  have 1: "\<exists>pre t1 t2 post.
      history (snd ?m) = pre @ [t1, t2] @ post \<and>
      lookup t1 [''cache'', ''k1''] = Some (Dir []) \<and>
      lookup t1 ([''cache'', ''k1''] @ Base [''p'', ''target'']) = None \<and>
      lookup t2 ([''cache'', ''k1''] @ Base [''p'', ''target''])
        = lookup (root world_cargo) [''p'', ''target'']"
    using T m free absent dl dev by blast
  have 2: "\<exists>pre t1 t2 post.
      history (snd ?s) = pre @ [t1, t2] @ post \<and>
      lookup t1 (CachePath entry_k1) = Some (Dir []) \<and>
      lookup t1 (CachePath entry_k1 @ Base [''p'', ''target'']) = None \<and>
      lookup t2 (CachePath entry_k1 @ Base [''p'', ''target''])
        = lookup (root world_cargo) [''p'', ''target'']"
    using T s absent' ps dl by blast
  show ?thesis using f g absent dl 1 2 by blast
qed


subsection \<open>Skip rules and cache entries\<close>

text \<open>
  C4 (as stated, refuted). A sync of the cargo artifact of \<open>/p\<close> succeeds and the entry
  it creates contains \<open>target/a.o\<close> and \<open>target/incremental/c.rmeta\<close>, which match
  the cargo skip rules; a store puts them into its entry as well.
\<close>

theorem C4_sync_and_store_keep_skipped_files_counterexample:
  "Name art_lock_only = ''cargo'' \<and>
   shouldSkipCargoPath ''a.o'' \<and> shouldSkipCargoPath ''incremental/c.rmeta'' \<and>
   fst (syncArtifact env_plain cm_cache art_lock_only ''/p'' ''/p'' sync_move world_cargo) = None \<and>
   lookup (root (snd (syncArtifact env_plain cm_cache art_lock_only ''/p'' ''/p'' sync_move world_cargo)))
     (components (GetArtifactCachePath env_plain cm_cache ''/p'' ''cargo'' ''4100000000000000'')
        @ [''target'', ''a.o'']) = Some (File 2) \<and>
   lookup (root (snd (syncArtifact env_plain cm_cache art_lock_only ''/p'' ''/p'' sync_move world_cargo)))
     (components (GetArtifactCachePath env_plain cm_cache ''/p'' ''cargo'' ''4100000000000000'')
        @ [''target'', ''incremental'', ''c.rmeta'']) = Some (File 4) \<and>
   EntryName entry_k1 = ''cargo'' \<and>
   fst (StoreToCache env_plain entry_k1 world_cargo) = None \<and>
   lookup (root (snd (StoreToCache env_plain entry_k1 world_cargo)))
     [''cache'', ''k1'', ''target'', ''a.o''] = Some (File 2)"
  by code_simp

text \<open>
  C4 (amended). Only the seed applies the skip rules. Every file or link that is in
  the file system after \<open>seedArtifactFromRoot\<close> and was not there before lies in the
  cache entry of the workspace's key, below the base name of an artifact path, at a
  relative path that matches no skip rule of the artifact and has no skipped
  directory above it. Sync and store move the tree as it is: after a successful sync
  step by rename, and after a successful store of one path, into an entry that did
  not exist, the entry's child is exactly the tree that was at the workspace path.
\<close>

theorem C4_only_seed_applies_skip_rules:
  "(seedArtifactFromRoot X cm a rootPath envPath lg w = (res, w') \<and>
      lookup (root w') q = Some x \<and> \<not> is_Dir x \<longrightarrow>
      lookup (root w) q = Some x \<or>
      (\<exists>key p r. ComputeCacheKey (key_env_of X w) a envPath = Inr key \<and> p \<in> set (Paths a) \<and>
         q = components (GetArtifactCachePath X cm rootPath (Name a) key)
               @ Base (components (Join rootPath p)) @ r \<and>
         \<not> shouldSkipPath (rel_string r) (Name a) \<and> entered (Name a) r)) \<and>
   (moveToCache X l c hb w = (None, w2) \<and> \<not> lock_held X (lock_path c) \<and>
      lookup (root w) c = None \<and> dirExists w l \<and> device X l = device X (c @ Base l) \<longrightarrow>
      lookup (root w2) (c @ Base l) = lookup (root w) l) \<and>
   (StoreToCache X entry w = (None, w3) \<and> lookup (root w) (CachePath entry) = None \<and>
      EnvPaths entry = [e] \<and> dirExists w e \<longrightarrow>
      lookup (root w3) (CachePath entry @ Base e) = lookup (root w) e)"
proof (intro conjI impI)
  assume h: "seedArtifactFromRoot X cm a rootPath envPath lg w = (res, w') \<and>
      lookup (root w') q = Some x \<and> \<not> is_Dir x"
  from seedArtifactFromRoot_adds [of X cm a rootPath envPath lg w res w'] h
  consider (same) "w' = w"
    | (seeded) key where "ComputeCacheKey (key_env_of X w) a envPath = Inr key"
        "adds (\<Union>p \<in> set (Paths a). seed_targets
          (components (GetArtifactCachePath X cm rootPath (Name a) key)
             @ Base (components (Join rootPath p))) (Name a)) w w'"
    by blast
  then show "lookup (root w) q = Some x \<or>
      (\<exists>key p r. ComputeCacheKey (key_env_of X w) a envPath = Inr key \<and> p \<in> set (Paths a) \<and>
         q = components (GetArtifactCachePath X cm rootPath (Name a) key)
               @ Base (components (Join rootPath p)) @ r \<and>
         \<not> shouldSkipPath (rel_string r) (Name a) \<and> entered (Name a) r)"
  proof cases
    case same with h show ?thesis by simp
  next
    case seeded
    from addsD [OF seeded(2)] h
    have "lookup (root w) q = Some x \<or>
      q \<in> (\<Union>p \<in> set (Paths a). seed_targets
          (components (GetArtifactCachePath X cm rootPath (Name a) key)
             @ Base (components (Join rootPath p))) (Name a))" by blast
    then show ?thesis
    proof
      assume "lookup (root w) q = Some x" then show ?thesis ..
    next
      assume "q \<in> (\<Union>p \<in> set (Paths a). seed_targets
          (components (GetArtifactCachePath X cm rootPath (Name a) key)
             @ Base (components (Join rootPath p))) (Name a))"
      then obtain p r where "p \<in> set (Paths a)"
        "q = (components (GetArtifactCachePath X cm rootPath (Name a) key)
               @ Base (components (Join rootPath p))) @ r"
        "\<not> shouldSkipPath (rel_string r) (Name a)" "entered (Name a) r"
        by (auto simp: seed_targets_def)
      with seeded(1) show ?thesis by auto
    qed
  qed
next
  assume "moveToCache X l c hb w = (None, w2) \<and> \<not> lock_held X (lock_path c) \<and>
      lookup (root w) c = None \<and> dirExists w l \<and> device X l = device X (c @ Base l)"
  then show "lookup (root w2) (c @ Base l) = lookup (root w) l"
    using moveToCache_entry_before_child [of X l c hb w w2] by blast
next
  assume "StoreToCache X entry w = (None, w3) \<and> lookup (root w) (CachePath entry) = None \<and>
      EnvPaths entry = [e] \<and> dirExists w e"
  then show "lookup (root w3) (CachePath entry @ Base e) = lookup (root w) e"
    using StoreToCache_entry_before_child [of X entry w w3 e "[]"] by blast
qed

text \<open>The amended C4 on the project \<open>/p\<close>: the seed from the root for the workspace
  \<open>/p/w1\<close> creates \<open>good.rlib\<close> in the entry, at a relative path no rule matches, and
  neither \<open>a.o\<close> nor the link \<open>dep.d\<close>; the sync step and the store carry the whole
  tree.\<close>

theorem C4_only_seed_applies_skip_rules_witness:
  "fst (seedArtifactFromRoot env_plain cm_cache art_lock_only ''/p'' ''/p/w1'' False world_cargo)
     = None \<and>
   lookup (root world_cargo)
     (components (GetArtifactCachePath env_plain cm_cache ''/p'' ''cargo'' ''4100000000000000'')
        @ [''target'', ''good.rlib'']) = None \<and>
   lookup (root (snd (seedArtifactFromRoot env_plain cm_cache art_lock_only ''/p'' ''/p/w1'' False
                        world_cargo)))
     (components (GetArtifactCachePath env_plain cm_cache ''/p'' ''cargo'' ''4100000000000000'')
        @ [''target'', ''good.rlib'']) = Some (File 3) \<and>
   lookup (root (snd (seedArtifactFromRoot env_plain cm_cache art_lock_only ''/p'' ''/p/w1'' False
                        world_cargo)))
     (components (GetArtifactCachePath env_plain cm_cache ''/p'' ''cargo'' ''4100000000000000'')
        @ [''target'', ''a.o'']) = None \<and>
   (\<exists>key p r. ComputeCacheKey (key_env_of env_plain world_cargo) art_lock_only ''/p/w1'' = Inr key \<and>
      p \<in> set (Paths art_lock_only) \<and>
      components (GetArtifactCachePath env_plain cm_cache ''/p'' ''cargo'' ''4100000000000000'')
        @ [''target'', ''good.rlib'']
       = components (GetArtifactCachePath env_plain cm_cache ''/p'' (Name art_lock_only) key)
               @ Base (components (Join ''/p'' p)) @ r \<and>
      \<not> shouldSkipPath (rel_string r) (Name art_lock_only) \<and> entered (Name art_lock_only) r) \<and>
   lookup (root (snd (moveToCache env_plain [''p'', ''target''] [''cache'', ''k1''] True world_cargo)))
     ([''cache'', ''k1''] @ Base [''p'', ''target'']) = lookup (root world_cargo) [''p'', ''target''] \<and>
   lookup (root (snd (StoreToCache env_plain entry_k1 world_cargo)))
     (CachePath entry_k1 @ Base [''p'', ''target'']) = lookup (root world_cargo) [''p'', ''target'']"
proof -
  let ?sd = "seedArtifactFromRoot env_plain cm_cache art_lock_only ''/p'' ''/p/w1'' False world_cargo"
  let ?m = "moveToCache env_plain [''p'', ''target''] [''cache'', ''k1''] True world_cargo"
  let ?s = "StoreToCache env_plain entry_k1 world_cargo"
  let ?q = "components (GetArtifactCachePath env_plain cm_cache ''/p'' ''cargo'' ''4100000000000000'')
        @ [''target'', ''good.rlib'']"
  have f: "fst ?sd = None" by code_simp
  have sd: "?sd = (fst ?sd, snd ?sd)" by simp
  have b: "lookup (root world_cargo) ?q = None" by code_simp
  have n: "lookup (root world_cargo) ?q \<noteq> Some (File 3)" using b by simp
  have a: "lookup (root (snd ?sd)) ?q = Some (File 3)" by code_simp
  have o: "lookup (root (snd ?sd))
     (components (GetArtifactCachePath env_plain cm_cache ''/p'' ''cargo'' ''4100000000000000'')
        @ [''target'', ''a.o'']) = None" by code_simp
  have leaf: "\<not> is_Dir (File 3)" by simp
  have fm: "fst ?m = None" by code_simp
  then have m: "?m = (None, snd ?m)" by (metis prod.collapse)
  have fs: "fst ?s = None" by code_simp
  then have s: "?s = (None, snd ?s)" by (metis prod.collapse)
  have free: "\<not> lock_held env_plain (lock_path [''cache'', ''k1''])"
    by (simp add: env_plain_def)
  have absent: "lookup (root world_cargo) [''cache'', ''k1''] = None" by code_simp
  have absent': "lookup (root world_cargo) (CachePath entry_k1) = None" by code_simp
  have dl: "dirExists world_cargo [''p'', ''target'']" by code_simp
  have dev: "device env_plain [''p'', ''target'']
               = device env_plain ([''cache'', ''k1''] @ Base [''p'', ''target''])"
    by (simp add: env_plain_def)
  have ps: "EnvPaths entry_k1 = [[''p'', ''target'']]" by (simp add: entry_k1_def)
  note T = C4_only_seed_applies_skip_rules [of env_plain cm_cache art_lock_only "''/p''" "''/p/w1''"
      False world_cargo "fst ?sd" "snd ?sd" ?q "File 3" "[''p'', ''target'']" "[''cache'', ''k1'']"
      True "snd ?m" entry_k1 "snd ?s" "[''p'', ''target'']"]
  have 1: "\<exists>key p r. ComputeCacheKey (key_env_of env_plain world_cargo) art_lock_only ''/p/w1'' = Inr key \<and>
      p \<in> set (Paths art_lock_only) \<and>
      ?q = components (GetArtifactCachePath env_plain cm_cache ''/p'' (Name art_lock_only) key)
               @ Base (components (Join ''/p'' p)) @ r \<and>
      \<not> shouldSkipPath (rel_string r) (Name art_lock_only) \<and> entered (Name art_lock_only) r"
    using T sd a leaf n by blast
  have 2: "lookup (root (snd ?m)) ([''cache'', ''k1''] @ Base [''p'', ''target''])
             = lookup (root world_cargo) [''p'', ''target'']"
    using T m free absent dl dev by blast
  have 3: "lookup (root (snd ?s)) (CachePath entry_k1 @ Base [''p'', ''target''])
             = lookup (root world_cargo) [''p'', ''target'']"
    using T s absent' ps dl by blast
  show ?thesis using f b a o 1 2 3 by blast
qed


subsection \<open>The result of seeding a tree\<close>





end
